(* ===== verification/Prelude.thy ===== *)
theory Prelude
  imports Main
begin

text \<open>
  Shared vocabulary of the development: the names of the model's basic types, the
  collections of facts the component theories add to, and the generic lemmas on
  association lists that the cache model and the page model both rest on. The
  browser keeps caches, cache entries and displayed notifications as ordered lists
  in which a key occurs at most once; the two list operations below are the ones
  the browser specifications use to update them: drop the entry with a key, and
  replace an entry by dropping the old one and appending the new one.
\<close>

type_synonym url = string
type_synonym cache_name = string

named_theorems storage_simps "characteristic equations of the cache-storage operations"
named_theorems handler_simps "unfolding facts for the event handlers of the models"

subsection \<open>Association lists: removal and put-at-end\<close>

text \<open>
  Updating one element of a list by its index, as a DOM collection's element is changed
  through a captured reference: an index past the end changes nothing.
\<close>

definition map_at :: "nat \<Rightarrow> ('a \<Rightarrow> 'a) \<Rightarrow> 'a list \<Rightarrow> 'a list" where
  "map_at i f xs = (if i < length xs then xs[i := f (xs ! i)] else xs)"

definition alist_remove :: "'k \<Rightarrow> ('k \<times> 'v) list \<Rightarrow> ('k \<times> 'v) list" where
  "alist_remove k xs = filter (\<lambda>(k', _). k' \<noteq> k) xs"

definition alist_put :: "'k \<Rightarrow> 'v \<Rightarrow> ('k \<times> 'v) list \<Rightarrow> ('k \<times> 'v) list" where
  "alist_put k v xs = alist_remove k xs @ [(k, v)]"

definition alist_map_at :: "'k \<Rightarrow> ('v \<Rightarrow> 'v) \<Rightarrow> ('k \<times> 'v) list \<Rightarrow> ('k \<times> 'v) list" where
  "alist_map_at k f xs = map (\<lambda>(k', v). if k' = k then (k', f v) else (k', v)) xs"

lemma map_of_alist_remove [simp]: "map_of (alist_remove k xs) = (map_of xs)(k := None)"
  by (induction xs) (auto simp: alist_remove_def fun_eq_iff)

lemma map_of_alist_put [simp]: "map_of (alist_put k v xs) = (map_of xs)(k \<mapsto> v)"
proof
  fix k'
  show "map_of (alist_put k v xs) k' = ((map_of xs)(k \<mapsto> v)) k'"
    by (cases "k' = k") (auto simp: alist_put_def map_add_def split: option.splits)
qed

lemma map_of_alist_map_at [simp]:
  "map_of (alist_map_at k f xs) = (map_of xs)(k := map_option f (map_of xs k))"
  by (induction xs) (auto simp: alist_map_at_def fun_eq_iff)

lemma map_of_filter_key [simp]:
  "map_of (filter (\<lambda>(k', _). Q k') xs) k = (if Q k then map_of xs k else None)"
  by (induction xs) auto

lemma keys_alist_remove [simp]: "map fst (alist_remove k xs) = filter (\<lambda>k'. k' \<noteq> k) (map fst xs)"
  by (induction xs) (auto simp: alist_remove_def)

lemma keys_alist_put [simp]: "map fst (alist_put k v xs) = filter (\<lambda>k'. k' \<noteq> k) (map fst xs) @ [k]"
  by (simp add: alist_put_def)

lemma keys_alist_map_at [simp]: "map fst (alist_map_at k f xs) = map fst xs"
  by (induction xs) (auto simp: alist_map_at_def)

lemma set_alist_put: "set (alist_put k v xs) \<subseteq> insert (k, v) (set xs)"
  by (auto simp: alist_put_def alist_remove_def)

lemma set_fold_alist_put: "set (fold (\<lambda>(k, v). alist_put k v) rs xs) \<subseteq> set xs \<union> set rs"
proof (induction rs arbitrary: xs)
  case Nil
  then show ?case by simp
next
  case (Cons p rs)
  then show ?case
    using set_alist_put [of "fst p" "snd p" xs] by (fastforce simp: case_prod_unfold)
qed

lemma set_alist_remove: "set (alist_remove k xs) = {p \<in> set xs. fst p \<noteq> k}"
  by (auto simp: alist_remove_def)

lemma distinct_keys_alist_put [simp]: "distinct (map fst xs) \<Longrightarrow> distinct (map fst (alist_put k v xs))"
  by simp

lemma alist_remove_absent: "k \<notin> set (map fst xs) \<Longrightarrow> alist_remove k xs = xs"
  by (induction xs) (auto simp: alist_remove_def)

lemma alist_map_at_absent: "k \<notin> set (map fst xs) \<Longrightarrow> alist_map_at k f xs = xs"
  by (induction xs) (auto simp: alist_map_at_def)

lemma alist_map_at_ident [simp]: "alist_map_at k (\<lambda>v. v) xs = xs"
  by (induction xs) (auto simp: alist_map_at_def)

lemma set_alist_map_at:
  "p \<in> set (alist_map_at k f xs) \<Longrightarrow> (\<exists>v. (k, v) \<in> set xs \<and> p = (k, f v)) \<or> (p \<in> set xs \<and> fst p \<noteq> k)"
  by (auto simp: alist_map_at_def split: if_splits)

subsection \<open>Lists\<close>

lemma length_map_at [simp]: "length (map_at i f xs) = length xs"
  by (simp add: map_at_def)

lemma nth_map_at: "j < length xs \<Longrightarrow> map_at i f xs ! j = (if j = i then f (xs ! j) else xs ! j)"
  by (simp add: map_at_def nth_list_update)

lemma set_map_at: "set (map_at i f xs) \<subseteq> set xs \<union> f ` set xs"
  by (auto simp: map_at_def dest: set_update_subset_insert [THEN subsetD])

lemma distinct_map_filter_eq_le1:
  "distinct (map f xs) \<Longrightarrow> length (filter (\<lambda>x. f x = c) xs) \<le> 1"
proof (induction xs)
  case Nil
  then show ?case by simp
next
  case (Cons x xs)
  then show ?case
    by (auto simp: filter_empty_conv image_iff)
qed

lemma count_list_update:
  "i < length xs \<Longrightarrow>
   count_list (xs[i := v]) x + (if xs ! i = x then 1 else 0) = count_list xs x + (if v = x then 1 else 0)"
proof (induction xs arbitrary: i)
  case Nil
  then show ?case by simp
next
  case (Cons y ys)
  show ?case
  proof (cases i)
    case 0
    then show ?thesis by simp
  next
    case (Suc n)
    then show ?thesis using Cons.IH [of n] Cons.prems by (auto split: if_splits)
  qed
qed

lemma drop_Cons_less: "drop i xs = y # ys \<Longrightarrow> i < length xs"
  by (metis drop_eq_Nil list.distinct(1) not_le)

lemma drop_Cons_nth: "drop i xs = y # ys \<Longrightarrow> xs ! i = y"
  by (metis drop_Cons_less hd_drop_conv_nth list.sel(1))

end
