(* ===== verification/CacheStorage.thy ===== *)
theory CacheStorage
  imports Prelude
begin

text \<open>
  The browser's Cache Storage API, as far as \<open>src/pwa/service-worker.js\<close> calls it
  (\<open>caches.open\<close>, \<open>caches.keys\<close>, \<open>caches.delete\<close>, \<open>caches.match\<close>,
  \<open>Cache.put\<close>, \<open>Cache.addAll\<close>). This is not code of the repository: it is the
  environment the worker is written against, modelled after the Service Worker
  specification so that the worker's handlers can be composed with it. A cache
  storage is the list of named caches in creation order (\<open>caches.match\<close> searches
  them in that order); a cache ("bucket") is the list of its entries, keyed by request
  URL, in insertion order. Every rejection of these promises is a \<open>TypeError\<close> in
  JavaScript; the constructors of \<open>js_error\<close> record its cause.
\<close>

datatype resp_type = Basic | Cors | Default | Error | Opaque | OpaqueRedirect

datatype req_mode = Navigate | SameOrigin | NoCors | CorsMode

record request =
  req_url :: url
  req_method :: string
  req_mode :: req_mode

record response =
  resp_status :: nat
  resp_type :: resp_type
  resp_body :: string

datatype js_error = NetworkError | BadStatus | MethodNotGet | NullDeref

type_synonym bucket = "(url \<times> response) list"
type_synonym cache_storage = "(cache_name \<times> bucket) list"

text \<open>\<open>new Request(url)\<close>, as \<open>caches.match(url)\<close> and \<open>cache.addAll(urls)\<close> build it.\<close>

definition url_request :: "url \<Rightarrow> request" where
  "url_request u = \<lparr>req_url = u, req_method = ''GET'', req_mode = CorsMode\<rparr>"

definition ok_status :: "response \<Rightarrow> bool" where
  "ok_status r \<longleftrightarrow> 200 \<le> resp_status r \<and> resp_status r \<le> 299"

subsection \<open>One cache\<close>

text \<open>\<open>Cache.match\<close> with default options: only GET requests match.\<close>

definition bucket_match :: "bucket \<Rightarrow> request \<Rightarrow> response option" where
  "bucket_match b rq = (if req_method rq = ''GET'' then map_of b (req_url rq) else None)"

text \<open>\<open>Cache.put\<close>: rejects a request that is not GET, otherwise replaces the entry.\<close>

definition bucket_put :: "request \<Rightarrow> response \<Rightarrow> bucket \<Rightarrow> js_error + bucket" where
  "bucket_put rq r b =
     (if req_method rq = ''GET'' then Inr (alist_put (req_url rq) r b) else Inl MethodNotGet)"

text \<open>
  \<open>Cache.addAll\<close>: fetch every URL (all requests are sent); reject if one fails
  or answers with a status outside 200--299; otherwise store all responses in one batch.
\<close>

fun fetch_batch :: "(request \<Rightarrow> response option) \<Rightarrow> url list \<Rightarrow> js_error + (url \<times> response) list" where
  "fetch_batch net [] = Inr []"
| "fetch_batch net (u # us) =
     (case net (url_request u) of
        None \<Rightarrow> Inl NetworkError
      | Some r \<Rightarrow>
          (if ok_status r
           then (case fetch_batch net us of Inl e \<Rightarrow> Inl e | Inr rs \<Rightarrow> Inr ((u, r) # rs))
           else Inl BadStatus))"

definition bucket_addAll :: "(request \<Rightarrow> response option) \<Rightarrow> url list \<Rightarrow> bucket \<Rightarrow> js_error + bucket" where
  "bucket_addAll net us b =
     (case fetch_batch net us of
        Inl e \<Rightarrow> Inl e
      | Inr rs \<Rightarrow> Inr (fold (\<lambda>(u, r). alist_put u r) rs b))"

subsection \<open>The storage of named caches\<close>

definition storage_keys :: "cache_storage \<Rightarrow> cache_name list" where
  "storage_keys cs = map fst cs"

definition storage_bucket :: "cache_name \<Rightarrow> cache_storage \<Rightarrow> bucket option" where
  "storage_bucket n cs = map_of cs n"

text \<open>\<open>caches.open\<close> creates the cache, last in creation order, when it is missing.\<close>

definition storage_open :: "cache_name \<Rightarrow> cache_storage \<Rightarrow> cache_storage" where
  "storage_open n cs = (if n \<in> set (storage_keys cs) then cs else cs @ [(n, [])])"

definition storage_delete :: "cache_name \<Rightarrow> cache_storage \<Rightarrow> cache_storage" where
  "storage_delete n cs = alist_remove n cs"

text \<open>An operation on the \<open>Cache\<close> object that \<open>caches.open n\<close> handed out.\<close>

definition storage_update :: "cache_name \<Rightarrow> (bucket \<Rightarrow> bucket) \<Rightarrow> cache_storage \<Rightarrow> cache_storage" where
  "storage_update n f cs = alist_map_at n f cs"

text \<open>\<open>caches.match\<close>: the first cache, in creation order, that has the entry.\<close>

fun storage_match :: "cache_storage \<Rightarrow> request \<Rightarrow> response option" where
  "storage_match [] rq = None"
| "storage_match ((n, b) # cs) rq =
     (case bucket_match b rq of Some r \<Rightarrow> Some r | None \<Rightarrow> storage_match cs rq)"

text \<open>A promise on a cache that may reject: a rejected operation leaves the cache as it was.\<close>

definition cache_apply :: "(bucket \<Rightarrow> js_error + bucket) \<Rightarrow> bucket \<Rightarrow> bucket" where
  "cache_apply f b = (case f b of Inl _ \<Rightarrow> b | Inr b' \<Rightarrow> b')"

text \<open>\<open>Promise.all(names.map(n => P n ? caches.delete(n) : undefined))\<close>.\<close>

definition delete_each :: "(cache_name \<Rightarrow> bool) \<Rightarrow> cache_name list \<Rightarrow> cache_storage \<Rightarrow> cache_storage" where
  "delete_each P ns cs = fold (\<lambda>n cs. if P n then storage_delete n cs else cs) ns cs"

text \<open>Every fetch of a batch answered, and answered with an ok status.\<close>

definition batch_ok :: "(request \<Rightarrow> response option) \<Rightarrow> url list \<Rightarrow> bool" where
  "batch_ok net us \<longleftrightarrow>
     list_all (\<lambda>u. case net (url_request u) of None \<Rightarrow> False | Some r \<Rightarrow> ok_status r) us"

definition storage_wf :: "cache_storage \<Rightarrow> bool" where
  "storage_wf cs \<longleftrightarrow> distinct (storage_keys cs)"

text \<open>
  The abstract view of a storage: what \<open>caches.match\<close> answers for a GET of each
  URL. The worker's contract is stated on this map.
\<close>

definition storage_view :: "cache_storage \<Rightarrow> url \<rightharpoonup> response" where
  "storage_view cs u = storage_match cs (url_request u)"

subsection \<open>Characteristic equations\<close>

lemma url_request_sel [simp]:
  "req_url (url_request u) = u" "req_method (url_request u) = ''GET''"
  by (simp_all add: url_request_def)

lemma keys_storage_open [storage_simps]:
  "storage_keys (storage_open n cs) =
     (if n \<in> set (storage_keys cs) then storage_keys cs else storage_keys cs @ [n])"
  by (simp add: storage_open_def storage_keys_def)

lemma keys_storage_delete [storage_simps]:
  "storage_keys (storage_delete n cs) = filter (\<lambda>m. m \<noteq> n) (storage_keys cs)"
  by (simp add: storage_delete_def storage_keys_def)

lemma keys_storage_update [storage_simps]:
  "storage_keys (storage_update n f cs) = storage_keys cs"
  by (simp add: storage_update_def storage_keys_def)

lemma storage_bucket_None_iff:
  "storage_bucket n cs = None \<longleftrightarrow> n \<notin> set (storage_keys cs)"
  by (simp add: storage_bucket_def storage_keys_def map_of_eq_None_iff)

lemma bucket_storage_open [storage_simps]:
  "storage_bucket n (storage_open n cs) = Some (case storage_bucket n cs of None \<Rightarrow> [] | Some b \<Rightarrow> b)"
  by (auto simp: storage_open_def storage_bucket_def storage_keys_def map_add_def
      split: option.splits dest: weak_map_of_SomeI)

lemma bucket_storage_open_other [storage_simps]:
  "m \<noteq> n \<Longrightarrow> storage_bucket m (storage_open n cs) = storage_bucket m cs"
  by (auto simp: storage_open_def storage_bucket_def map_add_def split: option.splits)

lemma bucket_storage_update [storage_simps]:
  "storage_bucket m (storage_update n f cs) =
     (if m = n then map_option f (storage_bucket n cs) else storage_bucket m cs)"
  by (simp add: storage_update_def storage_bucket_def)

lemma bucket_storage_delete [storage_simps]:
  "storage_bucket m (storage_delete n cs) = (if m = n then None else storage_bucket m cs)"
  by (simp add: storage_delete_def storage_bucket_def)

lemma storage_wf_single:
  assumes "storage_wf cs" and "set (storage_keys cs) \<subseteq> {n}"
  shows "cs = [] \<or> (\<exists>b. cs = [(n, b)])"
proof (cases cs)
  case Nil
  then show ?thesis by simp
next
  case (Cons p ps)
  with assms have "ps = []"
    by (cases ps) (auto simp: storage_wf_def storage_keys_def)
  with Cons assms show ?thesis
    by (cases p) (auto simp: storage_keys_def)
qed

lemma storage_match_not_get [storage_simps]:
  "req_method rq \<noteq> ''GET'' \<Longrightarrow> storage_match cs rq = None"
  by (induction cs rq rule: storage_match.induct) (auto simp: bucket_match_def)

lemma storage_match_SomeD:
  "storage_match cs rq = Some r \<Longrightarrow> \<exists>n b. (n, b) \<in> set cs \<and> bucket_match b rq = Some r"
  by (induction cs rq rule: storage_match.induct) (auto split: option.splits)

lemma storage_match_single_bucket:
  "storage_match [(n, b)] rq = bucket_match b rq"
  by (simp split: option.splits)

lemma bucket_put_match:
  "bucket_put rq r b = Inr b' \<Longrightarrow> bucket_match b' rq = Some r"
  by (auto simp: bucket_put_def bucket_match_def split: if_splits)

lemma bucket_put_other:
  "bucket_put rq r b = Inr b' \<Longrightarrow> req_url rq' \<noteq> req_url rq \<Longrightarrow> bucket_match b' rq' = bucket_match b rq'"
  by (auto simp: bucket_put_def bucket_match_def split: if_splits)

lemma bucket_put_Inl_iff:
  "bucket_put rq r b = Inl e \<longleftrightarrow> req_method rq \<noteq> ''GET'' \<and> e = MethodNotGet"
  by (auto simp: bucket_put_def)

lemma cache_apply_put_get:
  "req_method rq = ''GET'' \<Longrightarrow> cache_apply (bucket_put rq r) b = alist_put (req_url rq) r b"
  by (simp add: cache_apply_def bucket_put_def)

lemma cache_apply_put_not_get:
  "req_method rq \<noteq> ''GET'' \<Longrightarrow> cache_apply (bucket_put rq r) b = b"
  by (simp add: cache_apply_def bucket_put_def)

lemma delete_each_filter:
  "delete_each P ns cs = filter (\<lambda>(m, _). \<not> (m \<in> set ns \<and> P m)) cs"
  unfolding delete_each_def
  by (induction ns arbitrary: cs) (auto simp: storage_delete_def alist_remove_def intro: filter_cong)

lemma delete_each_all_keys:
  "delete_each P (storage_keys cs) cs = filter (\<lambda>(m, _). \<not> P m) cs"
  unfolding delete_each_filter storage_keys_def
  by (rule filter_cong) force+

lemma keys_delete_each_all [storage_simps]:
  "storage_keys (delete_each P (storage_keys cs) cs) = filter (\<lambda>m. \<not> P m) (storage_keys cs)"
  by (simp only: delete_each_all_keys) (simp add: storage_keys_def filter_map comp_def case_prod_unfold)

lemma bucket_delete_each_all [storage_simps]:
  "storage_bucket m (delete_each P (storage_keys cs) cs) = (if P m then None else storage_bucket m cs)"
  by (simp add: delete_each_all_keys storage_bucket_def)

lemma storage_wf_delete_each [intro]: "storage_wf cs \<Longrightarrow> storage_wf (delete_each P ns cs)"
  by (simp add: storage_wf_def storage_keys_def delete_each_filter distinct_map_filter)

lemma storage_match_view:
  "storage_match cs rq = (if req_method rq = ''GET'' then storage_view cs (req_url rq) else None)"
proof (induction cs)
  case Nil
  then show ?case by (simp add: storage_view_def)
next
  case (Cons p cs)
  then show ?case
    by (cases p) (auto simp: storage_view_def bucket_match_def split: option.splits)
qed

lemma storage_view_single:
  assumes "storage_wf cs" and "set (storage_keys cs) \<subseteq> {n}"
  shows "storage_view cs = (case storage_bucket n cs of None \<Rightarrow> Map.empty | Some b \<Rightarrow> map_of b)"
  using storage_wf_single [OF assms]
  by (auto simp: storage_view_def storage_bucket_def bucket_match_def fun_eq_iff split: option.splits)

lemma storage_view_empty [simp]: "storage_view [] = Map.empty"
  by (simp add: storage_view_def fun_eq_iff)

subsection \<open>The batch of \<open>Cache.addAll\<close>\<close>

lemma fetch_batch_Inr:
  "fetch_batch net us = Inr rs \<Longrightarrow>
     map fst rs = us \<and> (\<forall>(u, r) \<in> set rs. net (url_request u) = Some r \<and> ok_status r)"
proof (induction us arbitrary: rs)
  case Nil
  then show ?case by simp
next
  case (Cons u us)
  then obtain r rs' where "net (url_request u) = Some r" "ok_status r"
    "fetch_batch net us = Inr rs'" "rs = (u, r) # rs'"
    by (auto split: option.splits if_splits sum.splits)
  with Cons.IH show ?case by auto
qed

lemma fetch_batch_ok_iff: "(\<exists>rs. fetch_batch net us = Inr rs) \<longleftrightarrow> batch_ok net us"
  by (induction net us rule: fetch_batch.induct)
    (auto simp: batch_ok_def split: option.splits if_splits sum.splits)

lemma map_of_fold_alist_put:
  "map_of (fold (\<lambda>(u, r). alist_put u r) rs b) = map_of b ++ map_of (rev rs)"
  by (induction rs arbitrary: b) (auto simp: map_add_def fun_eq_iff split: option.splits)

lemma bucket_addAll_lookup:
  assumes "bucket_addAll net us b = Inr b'"
  shows "map_of b' u = (if u \<in> set us then net (url_request u) else map_of b u)"
proof -
  from assms obtain rs where rs: "fetch_batch net us = Inr rs"
    and b': "b' = fold (\<lambda>(u, r). alist_put u r) rs b"
    by (auto simp: bucket_addAll_def split: sum.splits)
  from fetch_batch_Inr [OF rs] have keys: "map fst rs = us"
    and ans: "\<forall>(u, r) \<in> set rs. net (url_request u) = Some r" by auto
  show ?thesis
  proof (cases "u \<in> set us")
    case True
    with keys obtain r where r: "map_of (rev rs) u = Some r"
      by (cases "map_of (rev rs) u") (auto simp: map_of_eq_None_iff image_iff)
    then have "(u, r) \<in> set rs" by (auto dest: map_of_SomeD)
    with ans r True b' show ?thesis by (auto simp: map_of_fold_alist_put)
  next
    case False
    then have "map_of (rev rs) u = None"
      by (simp add: map_of_eq_None_iff keys [symmetric])
    with False b' show ?thesis by (simp add: map_of_fold_alist_put map_add_def)
  qed
qed

lemma bucket_addAll_Inl_iff:
  "(\<exists>e. bucket_addAll net us b = Inl e) \<longleftrightarrow> \<not> batch_ok net us"
  by (auto simp: bucket_addAll_def simp flip: fetch_batch_ok_iff split: sum.splits)

lemma cache_apply_cases: "cache_apply f b = b \<or> f b = Inr (cache_apply f b)"
  by (simp add: cache_apply_def split: sum.splits)

lemma bucket_addAll_ok:
  assumes "bucket_addAll net us b = Inr b'" and "list_all (\<lambda>(_, r). ok_status r) b"
  shows "list_all (\<lambda>(_, r). ok_status r) b'"
proof -
  from assms(1) obtain rs where rs: "fetch_batch net us = Inr rs"
    and b': "b' = fold (\<lambda>(u, r). alist_put u r) rs b"
    by (auto simp: bucket_addAll_def split: sum.splits)
  from fetch_batch_Inr [OF rs] have "\<forall>(u, r) \<in> set rs. ok_status r" by auto
  with assms(2) b' set_fold_alist_put [of rs b] show ?thesis
    by (fastforce simp: list_all_iff)
qed

lemma storage_keys_Nil [simp]: "storage_keys [] = []"
  by (simp add: storage_keys_def)

lemma storage_wf_Nil [simp]: "storage_wf []"
  by (simp add: storage_wf_def)

lemma storage_wf_open [intro]: "storage_wf cs \<Longrightarrow> storage_wf (storage_open n cs)"
  by (simp add: storage_wf_def storage_simps)

lemma storage_wf_delete [intro]: "storage_wf cs \<Longrightarrow> storage_wf (storage_delete n cs)"
  by (simp add: storage_wf_def storage_simps)

lemma storage_wf_update [intro]: "storage_wf cs \<Longrightarrow> storage_wf (storage_update n f cs)"
  by (simp add: storage_wf_def storage_simps)

end
