(* ===== verification/ServiceWorker.thy ===== *)
theory ServiceWorker
  imports CacheStorage
begin

text \<open>
  The handlers of \<open>src/pwa/service-worker.js\<close>, one definition per
  \<open>self.addEventListener\<close> call, over an explicit worker state. Each handler runs as
  one atomic step, with one exception the code forces on us: in the fetch handler the
  write of a fresh network response into the cache (\<open>caches.open(CACHE_NAME).then(cache
  => cache.put(...))\<close>, lines 76--79) is neither awaited nor passed to
  \<open>waitUntil\<close>, so the page gets its response first and the write happens later.
  \<open>caches.open\<close> (\<open>open_current\<close>) takes effect when the network answers; the
  \<open>cache.put\<close> on the Cache object it returned is queued in \<open>pending\<close> with that
  object's identity and performed by its own step, \<open>put_done\<close>; the lifecycle theory
  lets any event come in between. Cache objects are told apart by \<open>cache_gen\<close>, the
  number of times \<open>CACHE_NAME\<close> has been created: a put on an object that has since
  been deleted (\<open>cache_live\<close> false) writes into no stored cache. The network is not
  modelled: its answer to each fetch is a
  parameter of the handler (\<open>None\<close> is a rejected \<open>fetch\<close>), and every request
  sent is recorded in \<open>net_log\<close>, so that "no network call" is a statement about the
  state.
\<close>

subsection \<open>Constants of the script\<close>

definition CACHE_NAME :: cache_name where
  "CACHE_NAME = ''gamehub-v1''"

definition urlsToCache :: "url list" where
  "urlsToCache = [''/'', ''/index.html'', ''/styles.css'', ''/app.js'', ''/manifest.json'',
     ''/icon-192.png'', ''/icon-512.png'']"

subsection \<open>Worker state\<close>

datatype sw_phase = Parsed | Installed | Activated

record notification =
  n_title :: string
  n_body :: string
  n_icon :: url
  n_badge :: url
  n_vibrate :: "nat list"
  n_tag :: string
  n_actions :: "(string \<times> string \<times> url) list"

record sw_state =
  caches :: cache_storage
  phase :: sw_phase
  skip_waiting :: bool
  claimed :: bool
  cache_gen :: nat
  pending :: "(request \<times> response \<times> nat) list"
  net_log :: "request list"
  served :: "(request \<times> response option) list"
  displayed :: "notification list"
  windows :: "url list"

datatype msg_data = MsgNull | MsgPrimitive | MsgObject "string option"

definition sw_init :: "cache_storage \<Rightarrow> sw_state" where
  "sw_init cs = \<lparr>caches = cs, phase = Parsed, skip_waiting = False, claimed = False,
     cache_gen = 0, pending = [], net_log = [], served = [], displayed = [], windows = []\<rparr>"

text \<open>
  \<open>caches.open(CACHE_NAME)\<close>: the stored object, or a new one (a new identity) when
  there is none.
\<close>

definition open_current :: "sw_state \<Rightarrow> sw_state" where
  "open_current s =
     (if CACHE_NAME \<in> set (storage_keys (caches s)) then s
      else s\<lparr>caches := storage_open CACHE_NAME (caches s), cache_gen := Suc (cache_gen s)\<rparr>)"

text \<open>The Cache object with identity \<open>g\<close> is the one stored under \<open>CACHE_NAME\<close>.\<close>

definition cache_live :: "nat \<Rightarrow> sw_state \<Rightarrow> bool" where
  "cache_live g s \<longleftrightarrow> g = cache_gen s \<and> CACHE_NAME \<in> set (storage_keys (caches s))"

subsection \<open>install\<close>

text \<open>
  \<open>caches.open(CACHE_NAME).then(c => c.addAll(urlsToCache)).catch(log)\<close>, then
  \<open>self.skipWaiting()\<close>. The \<open>catch\<close> swallows a failed \<open>addAll\<close>, so the promise
  given to \<open>waitUntil\<close> always resolves and the install always succeeds.
\<close>

definition on_install :: "(request \<Rightarrow> response option) \<Rightarrow> sw_state \<Rightarrow> sw_state" where
  "on_install net s =
     (let s1 = open_current s
      in s1\<lparr>caches := storage_update CACHE_NAME (cache_apply (bucket_addAll net urlsToCache)) (caches s1),
       net_log := net_log s @ map url_request urlsToCache,
       phase := Installed,
       skip_waiting := True\<rparr>)"

subsection \<open>activate\<close>

text \<open>Delete every cache whose name is not \<open>CACHE_NAME\<close>, then \<open>clients.claim()\<close>.\<close>

definition on_activate :: "sw_state \<Rightarrow> sw_state" where
  "on_activate s =
     s\<lparr>caches := delete_each (\<lambda>n. n \<noteq> CACHE_NAME) (storage_keys (caches s)) (caches s),
       phase := Activated,
       claimed := True\<rparr>"

subsection \<open>fetch\<close>

text \<open>
  \<open>cache.put(event.request, responseToCache)\<close> on the Cache object \<open>g\<close>: it changes
  the storage only while that object is still stored; \<open>put\<close> rejects a request that
  is not a GET.
\<close>

definition put_task :: "nat \<Rightarrow> request \<Rightarrow> response \<Rightarrow> sw_state \<Rightarrow> cache_storage" where
  "put_task g rq r s =
     (if cache_live g s then storage_update CACHE_NAME (cache_apply (bucket_put rq r)) (caches s)
      else caches s)"

text \<open>
  Cache first; on a miss, the network; for a response with status 200 and type
  \<open>basic\<close> the cache is opened and the put queued, and the response returned; a rejected fetch falls back to
  \<open>caches.match('/index.html')\<close>, which is \<open>None\<close> (\<open>undefined\<close>) when that
  entry is missing.
\<close>

definition on_fetch :: "request \<Rightarrow> response option \<Rightarrow> sw_state \<Rightarrow> response option \<times> sw_state" where
  "on_fetch rq net s =
     (case storage_match (caches s) rq of
        Some r \<Rightarrow> (Some r, s)
      | None \<Rightarrow>
          (let s1 = s\<lparr>net_log := net_log s @ [rq]\<rparr> in
           case net of
             None \<Rightarrow> (storage_match (caches s1) (url_request ''/index.html''), s1)
           | Some r \<Rightarrow>
               (if resp_status r \<noteq> 200 \<or> resp_type r \<noteq> Basic then (Some r, s1)
                else (let s2 = open_current s1
                      in (Some r, s2\<lparr>pending := pending s2 @ [(rq, r, cache_gen s2)]\<rparr>)))))"

text \<open>The \<open>i\<close>-th queued write completes; \<open>None\<close> when there is no such write.\<close>

definition put_done :: "nat \<Rightarrow> sw_state \<Rightarrow> sw_state option" where
  "put_done i s =
     (case drop i (pending s) of
        [] \<Rightarrow> None
      | (rq, r, g) # _ \<Rightarrow>
          Some (s\<lparr>caches := put_task g rq r s,
                  pending := take i (pending s) @ drop (Suc i) (pending s)\<rparr>))"

subsection \<open>sync, push, notificationclick, message\<close>

text \<open>\<open>syncGames\<close>: the body of its \<open>try\<close> only logs, so it always resolves.\<close>

definition syncGames :: "js_error + unit" where
  "syncGames = Inr ()"

definition on_sync :: "string \<Rightarrow> (js_error + unit) option" where
  "on_sync tag = (if tag = ''sync-games'' then Some syncGames else None)"

definition push_notification :: "string option \<Rightarrow> notification" where
  "push_notification d =
     \<lparr>n_title = ''GameHub'',
      n_body = (case d of Some t \<Rightarrow> t | None \<Rightarrow> ''Nueva notificacion de GameHub''),
      n_icon = ''/icon-192.png'', n_badge = ''/icon-96.png'', n_vibrate = [200, 100, 200],
      n_tag = ''gamehub-notification'',
      n_actions = [(''explore'', ''Ver'', ''/icon-96.png''), (''close'', ''Cerrar'', ''/icon-96.png'')]\<rparr>"

text \<open>
  \<open>registration.showNotification\<close> (browser): a notification with the tag of a
  displayed one replaces it in place; otherwise it is appended.
\<close>

definition show_notification :: "notification \<Rightarrow> notification list \<Rightarrow> notification list" where
  "show_notification nt ds =
     (if list_ex (\<lambda>n. n_tag n = n_tag nt) ds
      then map (\<lambda>n. if n_tag n = n_tag nt then nt else n) ds
      else ds @ [nt])"

definition on_push :: "string option \<Rightarrow> sw_state \<Rightarrow> sw_state" where
  "on_push d s = s\<lparr>displayed := show_notification (push_notification d) (displayed s)\<rparr>"

definition on_notificationclick :: "notification \<Rightarrow> string \<Rightarrow> sw_state \<Rightarrow> sw_state" where
  "on_notificationclick nt act s =
     (let s1 = s\<lparr>displayed := filter (\<lambda>n. n \<noteq> nt) (displayed s)\<rparr>
      in if act = ''explore'' then s1\<lparr>windows := windows s1 @ [''/'']\<rparr> else s1)"

text \<open>
  \<open>event.data.action\<close> throws a \<open>TypeError\<close> when the message carries no data
  (\<open>null\<close>); a primitive value has no \<open>action\<close>. The two tests are independent
  \<open>if\<close>s, in this order.
\<close>

definition on_message :: "msg_data \<Rightarrow> sw_state \<Rightarrow> js_error + sw_state" where
  "on_message d s =
     (case d of
        MsgNull \<Rightarrow> Inl NullDeref
      | MsgPrimitive \<Rightarrow> Inr s
      | MsgObject act \<Rightarrow>
          (let s1 = (if act = Some ''skipWaiting'' then s\<lparr>skip_waiting := True\<rparr> else s)
           in Inr (if act = Some ''clearCache''
                   then s1\<lparr>caches := delete_each (\<lambda>_. True) (storage_keys (caches s1)) (caches s1)\<rparr>
                   else s1)))"

subsection \<open>Shared facts about the handlers\<close>

text \<open>A response with status 200 and type \<open>basic\<close>, the only kind the fetch handler stores.\<close>

definition basic_200 :: "string \<Rightarrow> response" where
  "basic_200 body = \<lparr>resp_status = 200, resp_type = Basic, resp_body = body\<rparr>"

definition current_bucket :: "cache_storage \<Rightarrow> bucket" where
  "current_bucket cs = (case storage_bucket CACHE_NAME cs of None \<Rightarrow> [] | Some b \<Rightarrow> b)"

lemma sel_sw_init [simp]:
  "caches (sw_init cs) = cs" "phase (sw_init cs) = Parsed" "pending (sw_init cs) = []"
  "net_log (sw_init cs) = []" "displayed (sw_init cs) = []" "skip_waiting (sw_init cs) = False"
  "cache_gen (sw_init cs) = 0"
  by (simp_all add: sw_init_def)

lemma basic_200_sel [simp]:
  "resp_status (basic_200 b) = 200" "resp_type (basic_200 b) = Basic" "ok_status (basic_200 b)"
  by (simp_all add: basic_200_def ok_status_def)

lemma caches_open_current [storage_simps]:
  "caches (open_current s) = storage_open CACHE_NAME (caches s)"
  by (simp add: open_current_def storage_open_def)

lemma open_current_fields [simp]:
  "phase (open_current s) = phase s" "pending (open_current s) = pending s"
  "displayed (open_current s) = displayed s" "net_log (open_current s) = net_log s"
  "windows (open_current s) = windows s"
  by (simp_all add: open_current_def)

lemma open_current_net_log [simp]:
  "open_current (s\<lparr>net_log := l\<rparr>) = (open_current s)\<lparr>net_log := l\<rparr>"
  by (simp add: open_current_def)

lemma cache_gen_open_current:
  "cache_gen (open_current s) =
     (if CACHE_NAME \<in> set (storage_keys (caches s)) then cache_gen s else Suc (cache_gen s))"
  by (simp add: open_current_def)

lemma cache_live_open_current: "cache_live (cache_gen (open_current s)) (open_current s)"
  by (simp add: cache_live_def open_current_def storage_simps)

lemma keys_put_task [storage_simps]:
  "storage_keys (put_task g rq r s) = storage_keys (caches s)"
  by (simp add: put_task_def storage_simps)

lemma storage_wf_put_task [intro]: "storage_wf (caches s) \<Longrightarrow> storage_wf (put_task g rq r s)"
  by (auto simp: put_task_def)

lemma bucket_put_task [storage_simps]:
  "storage_bucket CACHE_NAME (put_task g rq r s) =
     (if cache_live g s then Some (cache_apply (bucket_put rq r) (current_bucket (caches s)))
      else storage_bucket CACHE_NAME (caches s))"
  by (auto simp: put_task_def cache_live_def current_bucket_def storage_simps storage_bucket_None_iff
      split: option.splits)

lemma bucket_on_install [storage_simps]:
  "storage_bucket CACHE_NAME (caches (on_install net s)) =
     Some (cache_apply (bucket_addAll net urlsToCache) (current_bucket (caches s)))"
  by (simp add: on_install_def Let_def current_bucket_def storage_simps)

lemma storage_wf_on_install [intro]: "storage_wf (caches s) \<Longrightarrow> storage_wf (caches (on_install net s))"
  by (auto simp: on_install_def Let_def storage_simps)

lemma caches_on_activate [storage_simps]:
  "caches (on_activate s) = filter (\<lambda>(n, _). n = CACHE_NAME) (caches s)"
  by (simp add: on_activate_def delete_each_all_keys)

lemma on_message_clear [handler_simps]:
  "on_message (MsgObject (Some ''clearCache'')) s = Inr (s\<lparr>caches := []\<rparr>)"
  by (simp add: on_message_def delete_each_all_keys)

lemma on_message_skip [handler_simps]:
  "on_message (MsgObject (Some ''skipWaiting'')) s = Inr (s\<lparr>skip_waiting := True\<rparr>)"
  by (simp add: on_message_def)

lemma on_message_other [handler_simps]:
  "act \<noteq> Some ''skipWaiting'' \<Longrightarrow> act \<noteq> Some ''clearCache'' \<Longrightarrow> on_message (MsgObject act) s = Inr s"
  by (simp add: on_message_def)

lemma on_message_cases:
  assumes "on_message d s = Inr s'"
  shows "s' = s \<or> s' = s\<lparr>skip_waiting := True\<rparr> \<or> s' = s\<lparr>caches := []\<rparr>"
  using assms
  by (cases d) (auto simp: on_message_def delete_each_all_keys split: if_splits)

lemma put_done_Some_iff:
  "(\<exists>s'. put_done i s = Some s') \<longleftrightarrow> i < length (pending s)"
  by (auto simp: put_done_def drop_Cons_less split: list.splits)

lemma put_done_SomeD:
  assumes "put_done i s = Some s'"
  shows "\<exists>rq r g. i < length (pending s) \<and> pending s ! i = (rq, r, g)
     \<and> caches s' = put_task g rq r s
     \<and> pending s' = take i (pending s) @ drop (Suc i) (pending s)
     \<and> phase s' = phase s \<and> displayed s' = displayed s \<and> cache_gen s' = cache_gen s"
proof -
  from assms obtain rq r g rest where d: "drop i (pending s) = (rq, r, g) # rest"
    and s': "s' = s\<lparr>caches := put_task g rq r s,
                      pending := take i (pending s) @ drop (Suc i) (pending s)\<rparr>"
    by (auto simp: put_done_def split: list.splits)
  from d have "i < length (pending s)" and "pending s ! i = (rq, r, g)"
    by (rule drop_Cons_less, rule drop_Cons_nth)
  with s' show ?thesis by simp
qed

subsection \<open>fetch: cache first, then network, then the offline page\<close>

text \<open>
  C1. A request that \<open>caches.match\<close> finds is answered with the cached response,
  and nothing else happens: no request goes to the network, nothing is queued.
\<close>

theorem fetch_cache_hit:
  assumes "storage_match (caches s) rq = Some r"
  shows "on_fetch rq net s = (Some r, s)"
  using assms by (simp add: on_fetch_def)

theorem fetch_cache_hit_witness:
  "storage_match [(''gamehub-v1'', [(''/app.js'', basic_200 ''js'')])] (url_request ''/app.js'') = Some (basic_200 ''js'')
   \<and> on_fetch (url_request ''/app.js'') None (sw_init [(''gamehub-v1'', [(''/app.js'', basic_200 ''js'')])])
     = (Some (basic_200 ''js''), sw_init [(''gamehub-v1'', [(''/app.js'', basic_200 ''js'')])])"
proof -
  have m: "storage_match [(''gamehub-v1'', [(''/app.js'', basic_200 ''js'')])] (url_request ''/app.js'')
      = Some (basic_200 ''js'')"
    by (simp add: bucket_match_def)
  show ?thesis
    using m fetch_cache_hit [of "sw_init [(''gamehub-v1'', [(''/app.js'', basic_200 ''js'')])]"] by simp
qed

text \<open>
  C3. When the cache misses and the network request fails, the request has gone to the
  network and the answer is whatever \<open>caches.match('/index.html')\<close> finds, whatever
  kind of request it was (a navigation or an image alike); nothing is queued.
\<close>

theorem fetch_network_failure_fallback:
  assumes "storage_match (caches s) rq = None"
  shows "on_fetch rq None s =
           (storage_match (caches s) (url_request ''/index.html''), s\<lparr>net_log := net_log s @ [rq]\<rparr>)"
  using assms by (simp add: on_fetch_def)

theorem fetch_network_failure_fallback_witness:
  "storage_match [(''gamehub-v1'', [(''/index.html'', basic_200 ''offline'')])]
      \<lparr>req_url = ''/logo.png'', req_method = ''GET'', req_mode = NoCors\<rparr> = None
   \<and> on_fetch \<lparr>req_url = ''/logo.png'', req_method = ''GET'', req_mode = NoCors\<rparr> None
       (sw_init [(''gamehub-v1'', [(''/index.html'', basic_200 ''offline'')])])
     = (Some (basic_200 ''offline''),
        (sw_init [(''gamehub-v1'', [(''/index.html'', basic_200 ''offline'')])])
          \<lparr>net_log := [\<lparr>req_url = ''/logo.png'', req_method = ''GET'', req_mode = NoCors\<rparr>]\<rparr>)"
proof -
  have m: "storage_match [(''gamehub-v1'', [(''/index.html'', basic_200 ''offline'')])]
      \<lparr>req_url = ''/logo.png'', req_method = ''GET'', req_mode = NoCors\<rparr> = None"
    by (simp add: bucket_match_def)
  show ?thesis
    using m fetch_network_failure_fallback
      [of "sw_init [(''gamehub-v1'', [(''/index.html'', basic_200 ''offline'')])]"]
    by (simp add: bucket_match_def)
qed

text \<open>
  C6. When the cache misses and the network answers, the answer is returned and the
  request has gone to the network. Exactly when the status is 200 and the type
  \<open>basic\<close>, \<open>caches.open(CACHE_NAME)\<close> runs (creating the cache if it is
  missing) and the write of the response is queued on the Cache object it opened.
\<close>

theorem fetch_miss_network:
  assumes "storage_match (caches s) rq = None"
  shows "on_fetch rq (Some r) s =
           (Some r, if resp_status r = 200 \<and> resp_type r = Basic
                    then (open_current s)\<lparr>net_log := net_log s @ [rq],
                           pending := pending s @ [(rq, r, cache_gen (open_current s))]\<rparr>
                    else s\<lparr>net_log := net_log s @ [rq]\<rparr>)"
  using assms by (simp add: on_fetch_def Let_def)

theorem fetch_miss_network_witness:
  "storage_match [] (url_request ''/styles.css'') = None
   \<and> on_fetch (url_request ''/styles.css'') (Some (basic_200 ''css'')) (sw_init [])
     = (Some (basic_200 ''css''),
        (sw_init [])\<lparr>caches := [(CACHE_NAME, [])], cache_gen := 1,
                      net_log := [url_request ''/styles.css''],
                      pending := [(url_request ''/styles.css'', basic_200 ''css'', 1)]\<rparr>)"
  using fetch_miss_network [of "sw_init []" "url_request ''/styles.css''" "basic_200 ''css''"]
  by (simp add: open_current_def storage_open_def storage_keys_def sw_init_def)

subsection \<open>activate, install, message\<close>

text \<open>
  C4. Activation keeps exactly the buckets named \<open>CACHE_NAME\<close>, with their contents,
  and deletes every other one; the worker is then active and has claimed its clients.
\<close>

theorem activate_keeps_only_current:
  "caches (on_activate s) = filter (\<lambda>(n, _). n = CACHE_NAME) (caches s)
   \<and> phase (on_activate s) = Activated \<and> claimed (on_activate s)"
  by (simp add: on_activate_def delete_each_all_keys)

text \<open>
  C7. When every asset of \<open>urlsToCache\<close> is fetched with an ok status, the
  install leaves a \<open>CACHE_NAME\<close> bucket that holds each asset's response, and every
  other entry it had before.
\<close>

theorem install_precaches_assets:
  assumes "batch_ok net urlsToCache"
  shows "\<exists>b. storage_bucket CACHE_NAME (caches (on_install net s)) = Some b
           \<and> (\<forall>u. map_of b u = (if u \<in> set urlsToCache then net (url_request u)
                                else map_of (current_bucket (caches s)) u))"
proof -
  from assms obtain b' where b': "bucket_addAll net urlsToCache (current_bucket (caches s)) = Inr b'"
    using bucket_addAll_Inl_iff [of net urlsToCache] by (metis sum.exhaust)
  then have "cache_apply (bucket_addAll net urlsToCache) (current_bucket (caches s)) = b'"
    by (simp add: cache_apply_def)
  with b' show ?thesis
    by (auto simp: bucket_on_install bucket_addAll_lookup)
qed

theorem install_precaches_assets_witness:
  "batch_ok (\<lambda>_. Some (basic_200 ''asset'')) urlsToCache
   \<and> (\<exists>b. storage_bucket CACHE_NAME (caches (on_install (\<lambda>_. Some (basic_200 ''asset'')) (sw_init []))) = Some b
        \<and> (\<forall>u. map_of b u = (if u \<in> set urlsToCache then Some (basic_200 ''asset'')
                              else map_of (current_bucket (caches (sw_init []))) u)))"
proof -
  have ok: "batch_ok (\<lambda>_. Some (basic_200 ''asset'')) urlsToCache"
    by (simp add: batch_ok_def urlsToCache_def)
  show ?thesis
    using ok install_precaches_assets [OF ok, of "sw_init []"] by simp
qed

text \<open>
  C8. When one asset fails (network error or a status outside 200--299), nothing of the
  batch is stored: the \<open>CACHE_NAME\<close> bucket exists (\<open>caches.open\<close> created it)
  and holds what it held before; the install still succeeds, because the \<open>catch\<close>
  swallows the rejection.
\<close>

theorem install_failure_keeps_cache:
  assumes "\<not> batch_ok net urlsToCache"
  shows "storage_bucket CACHE_NAME (caches (on_install net s)) = Some (current_bucket (caches s))
         \<and> phase (on_install net s) = Installed"
proof -
  from assms obtain e where "bucket_addAll net urlsToCache (current_bucket (caches s)) = Inl e"
    using bucket_addAll_Inl_iff by blast
  then have "storage_bucket CACHE_NAME (caches (on_install net s)) = Some (current_bucket (caches s))"
    by (simp only: bucket_on_install) (simp add: cache_apply_def)
  then show ?thesis
    by (simp add: on_install_def Let_def)
qed

theorem install_failure_keeps_cache_witness:
  "\<not> batch_ok (\<lambda>_. None) urlsToCache
   \<and> storage_bucket CACHE_NAME (caches (on_install (\<lambda>_. None) (sw_init []))) = Some []
   \<and> phase (on_install (\<lambda>_. None) (sw_init [])) = Installed"
proof -
  have nok: "\<not> batch_ok (\<lambda>_. None) urlsToCache"
    by (simp add: batch_ok_def urlsToCache_def)
  show ?thesis
    using nok install_failure_keeps_cache [OF nok, of "sw_init []"]
    by (simp add: current_bucket_def storage_bucket_def)
qed

text \<open>
  C11. A message carrying an object acts only through its \<open>action\<close>:
  \<open>skipWaiting\<close> sets the skip-waiting flag, \<open>clearCache\<close> deletes every cache, and
  any other action, or none, changes nothing.
\<close>

theorem message_object_actions:
  "on_message (MsgObject act) s =
     Inr (s\<lparr>skip_waiting := (skip_waiting s \<or> act = Some ''skipWaiting''),
            caches := (if act = Some ''clearCache'' then [] else caches s)\<rparr>)"
  by (auto simp: on_message_def delete_each_all_keys)

text \<open>
  C12. The message handler throws (\<open>event.data.action\<close> on \<open>null\<close>) exactly when
  the message carries no data.
\<close>

theorem message_throws_iff_null:
  "isl (on_message d s) = (d = MsgNull)"
  by (cases d) (simp_all add: on_message_def Let_def)

text \<open>
  C13. A GET-less request that misses the cache and gets a 200 \<open>basic\<close> answer
  creates the \<open>CACHE_NAME\<close> cache (\<open>caches.open\<close> runs first) but stores
  nothing: when the queued write completes, \<open>cache.put\<close> rejects, the rejection
  is not handled, and the storage is the one \<open>caches.open\<close> left.
\<close>

theorem put_task_not_get:
  assumes "storage_match (caches s) rq = None" and "req_method rq \<noteq> ''GET''"
    and "resp_status r = 200" and "resp_type r = Basic"
  shows "\<exists>s2. put_done (length (pending s)) (snd (on_fetch rq (Some r) s)) = Some s2
           \<and> caches s2 = storage_open CACHE_NAME (caches s) \<and> pending s2 = pending s"
proof -
  let ?s1 = "open_current s"
  have nop: "cache_apply (bucket_put rq r) = (\<lambda>b. b)"
    using assms(2) by (simp add: fun_eq_iff cache_apply_put_not_get)
  have "put_task (cache_gen ?s1) rq r (?s1\<lparr>net_log := net_log s @ [rq],
          pending := pending s @ [(rq, r, cache_gen ?s1)]\<rparr>) = storage_open CACHE_NAME (caches s)"
    by (simp add: put_task_def nop storage_update_def storage_simps)
  then show ?thesis
    using assms by (simp add: on_fetch_def Let_def put_done_def)
qed

theorem put_task_not_get_witness:
  "storage_match [] \<lparr>req_url = ''/api/score'', req_method = ''POST'', req_mode = CorsMode\<rparr> = None
   \<and> req_method \<lparr>req_url = ''/api/score'', req_method = ''POST'', req_mode = CorsMode\<rparr> \<noteq> ''GET''
   \<and> resp_status (basic_200 ''ok'') = 200 \<and> resp_type (basic_200 ''ok'') = Basic
   \<and> (\<exists>s2. put_done 0 (snd (on_fetch \<lparr>req_url = ''/api/score'', req_method = ''POST'', req_mode = CorsMode\<rparr>
              (Some (basic_200 ''ok'')) (sw_init []))) = Some s2
         \<and> caches s2 = [(CACHE_NAME, [])] \<and> pending s2 = [])"
  using put_task_not_get [of "sw_init []" "\<lparr>req_url = ''/api/score'', req_method = ''POST'', req_mode = CorsMode\<rparr>"
      "basic_200 ''ok''"]
  by (simp add: storage_open_def storage_keys_def)

subsection \<open>notificationclick\<close>

text \<open>
  C16. A click on a displayed notification closes it; a window on \<open>/\<close> is opened
  exactly when the click was on the \<open>explore\<close> action, and nothing else changes.
\<close>

theorem notificationclick_effect:
  "nt \<notin> set (displayed (on_notificationclick nt act s))
   \<and> windows (on_notificationclick nt act s) = windows s @ (if act = ''explore'' then [''/''] else [])
   \<and> caches (on_notificationclick nt act s) = caches s
   \<and> pending (on_notificationclick nt act s) = pending s"
  by (simp add: on_notificationclick_def Let_def)

subsection \<open>The deferred write on the abstract cache\<close>

text \<open>
  Seen through \<open>storage_view\<close>, the deferred write of a GET response is the map
  update \<open>view(url \<mapsto> r)\<close>, in any storage that holds no cache other than
  \<open>CACHE_NAME\<close>, as after activation.
\<close>

lemma storage_view_put_task:
  assumes wf: "storage_wf (caches s)" and only: "set (storage_keys (caches s)) \<subseteq> {CACHE_NAME}"
  shows "storage_view (put_task g rq r s) =
           (if cache_live g s \<and> req_method rq = ''GET'' then (storage_view (caches s))(req_url rq \<mapsto> r)
            else storage_view (caches s))"
proof (cases "cache_live g s")
  case True
  have wf': "storage_wf (put_task g rq r s)" using wf by blast
  have only': "set (storage_keys (put_task g rq r s)) \<subseteq> {CACHE_NAME}"
    using only by (simp add: storage_simps)
  have old: "storage_view (caches s) = map_of (current_bucket (caches s))"
    using storage_view_single [OF wf only] by (simp add: current_bucket_def split: option.splits)
  have "storage_view (put_task g rq r s) = map_of (cache_apply (bucket_put rq r) (current_bucket (caches s)))"
    using storage_view_single [OF wf' only'] True by (simp add: storage_simps)
  with old True show ?thesis
    by (simp add: cache_apply_put_get cache_apply_put_not_get)
next
  case False
  then show ?thesis by (simp add: put_task_def)
qed

lemma on_fetch_fields [handler_simps]:
  "phase (snd (on_fetch rq net s)) = phase s"
  "displayed (snd (on_fetch rq net s)) = displayed s"
  by (simp_all add: on_fetch_def Let_def split: option.splits)

lemma caches_on_fetch:
  "caches (snd (on_fetch rq net s)) = caches s
   \<or> caches (snd (on_fetch rq net s)) = storage_open CACHE_NAME (caches s)"
  by (auto simp: on_fetch_def Let_def storage_simps split: option.splits)

lemma cache_gen_on_fetch: "cache_gen s \<le> cache_gen (snd (on_fetch rq net s))"
  by (auto simp: on_fetch_def Let_def cache_gen_open_current split: option.splits)

lemma pending_on_fetch:
  "pending (snd (on_fetch rq net s)) = pending s
   \<or> (\<exists>r. pending (snd (on_fetch rq net s)) = pending s @ [(rq, r, cache_gen (snd (on_fetch rq net s)))]
          \<and> resp_status r = 200 \<and> resp_type r = Basic)"
  by (auto simp: on_fetch_def Let_def split: option.splits)

lemma on_push_fields [handler_simps]:
  "caches (on_push d s) = caches s" "phase (on_push d s) = phase s" "pending (on_push d s) = pending s"
  "cache_gen (on_push d s) = cache_gen s"
  by (simp_all add: on_push_def)

lemma on_notificationclick_fields [handler_simps]:
  "caches (on_notificationclick nt act s) = caches s"
  "phase (on_notificationclick nt act s) = phase s"
  "pending (on_notificationclick nt act s) = pending s"
  "cache_gen (on_notificationclick nt act s) = cache_gen s"
  "displayed (on_notificationclick nt act s) = filter (\<lambda>n. n \<noteq> nt) (displayed s)"
  by (simp_all add: on_notificationclick_def Let_def)

lemma show_notification_single:
  "list_all (\<lambda>n. n_tag n = n_tag nt) ds \<Longrightarrow> length ds \<le> 1 \<Longrightarrow> show_notification nt ds = [nt]"
  by (cases ds) (auto simp: show_notification_def)

lemma storage_view_open:
  assumes wf: "storage_wf cs" and only: "set (storage_keys cs) \<subseteq> {CACHE_NAME}"
  shows "storage_view (storage_open CACHE_NAME cs) = storage_view cs"
proof -
  have wf': "storage_wf (storage_open CACHE_NAME cs)" using wf by blast
  have only': "set (storage_keys (storage_open CACHE_NAME cs)) \<subseteq> {CACHE_NAME}"
    using only by (simp add: storage_simps)
  show ?thesis
    using storage_view_single [OF wf only] storage_view_single [OF wf' only']
    by (simp add: storage_simps split: option.splits)
qed

end
