(* ===== verification/SWLifecycle.thy ===== *)
theory SWLifecycle
  imports ServiceWorker
begin

text \<open>
  The service worker as a state machine over all the events the browser may deliver to
  it. \<open>sw_handle\<close> is the browser's dispatch: which events reach the worker in which
  phase (install once, activation after install, fetch, sync, push and notification
  clicks only to the active worker, messages at any time) and the completion of a queued
  cache write at any moment, which is how a deferred write interleaves with later events.
  A handler that throws leaves the state as it was. \<open>sw_reachable\<close> is the set of
  states reachable from a freshly parsed worker over any storage left by earlier versions
  (with one bucket per name, and a current bucket, if any, that this script wrote). The
  invariant \<open>sw_inv\<close> holds in all of them, one preservation lemma per conjunct, and
  the abstract cache \<open>sw_abs\<close> (the map from URLs to responses and the queued writes,
  each live or dead) refines \<open>cache_spec\<close>.
\<close>

datatype sw_event =
    EvInstall "request \<Rightarrow> response option"
  | EvActivate
  | EvFetch request "response option"
  | EvPutDone nat
  | EvSync string
  | EvPush "string option"
  | EvNotificationClick notification string
  | EvMessage msg_data

fun sw_handle :: "sw_state \<Rightarrow> sw_event \<Rightarrow> sw_state option" where
  "sw_handle s (EvInstall net) = (if phase s = Parsed then Some (on_install net s) else None)"
| "sw_handle s EvActivate = (if phase s = Installed then Some (on_activate s) else None)"
| "sw_handle s (EvFetch rq net) =
     (if phase s = Activated
      then (let p = on_fetch rq net s in Some ((snd p)\<lparr>served := served (snd p) @ [(rq, fst p)]\<rparr>))
      else None)"
| "sw_handle s (EvPutDone i) = put_done i s"
| "sw_handle s (EvSync tag) = (if phase s = Activated then Some s else None)"
| "sw_handle s (EvPush d) = (if phase s = Activated then Some (on_push d s) else None)"
| "sw_handle s (EvNotificationClick nt act) =
     (if phase s = Activated \<and> nt \<in> set (displayed s) then Some (on_notificationclick nt act s) else None)"
| "sw_handle s (EvMessage d) = Some (case on_message d s of Inl _ \<Rightarrow> s | Inr s' \<Rightarrow> s')"

fun sw_run :: "sw_state \<Rightarrow> sw_event list \<Rightarrow> sw_state option" where
  "sw_run s [] = Some s"
| "sw_run s (e # es) = (case sw_handle s e of None \<Rightarrow> None | Some s' \<Rightarrow> sw_run s' es)"

definition cached_ok :: "cache_storage \<Rightarrow> bool" where
  "cached_ok cs \<longleftrightarrow> list_all (\<lambda>(_, r). ok_status r) (current_bucket cs)"

definition pending_ok :: "(request \<times> response \<times> nat) list \<Rightarrow> bool" where
  "pending_ok ps \<longleftrightarrow> list_all (\<lambda>(_, r, _). resp_status r = 200 \<and> resp_type r = Basic) ps"

text \<open>Every queued write targets a Cache object that \<open>caches.open\<close> has already returned.\<close>

definition pending_gen_ok :: "sw_state \<Rightarrow> bool" where
  "pending_gen_ok s \<longleftrightarrow> list_all (\<lambda>(_, _, g). g \<le> cache_gen s) (pending s)"

definition only_current :: "sw_state \<Rightarrow> bool" where
  "only_current s \<longleftrightarrow> phase s \<noteq> Activated \<or> set (storage_keys (caches s)) \<subseteq> {CACHE_NAME}"

text \<open>At most one notification on screen, and it is the GameHub one.\<close>

definition notif_ok :: "notification list \<Rightarrow> bool" where
  "notif_ok ds \<longleftrightarrow> list_all (\<lambda>n. n_tag n = ''gamehub-notification'') ds \<and> length ds \<le> 1"

definition sw_inv :: "sw_state \<Rightarrow> bool" where
  "sw_inv s \<longleftrightarrow> storage_wf (caches s) \<and> cached_ok (caches s) \<and> pending_ok (pending s)
     \<and> pending_gen_ok s \<and> only_current s \<and> notif_ok (displayed s)"

inductive sw_reachable :: "sw_state \<Rightarrow> bool" where
  init: "storage_wf cs \<Longrightarrow> cached_ok cs \<Longrightarrow> sw_reachable (sw_init cs)"
| step: "sw_reachable s \<Longrightarrow> sw_handle s e = Some s' \<Longrightarrow> sw_reachable s'"

text \<open>
  The contract of the active worker's cache. The abstract state is the cache seen as a
  map from URLs to responses, and the queue of writes, each marked with whether the
  Cache object it will write to is still the stored one. A fetch that the map answers
  changes nothing; a fetch that misses queues a live write of a 200 \<open>basic\<close>
  answer; a completed write changes the map only when it is live and of a GET request;
  \<open>clearCache\<close> empties the map and makes every queued write dead.
\<close>

type_synonym abs_cache = "(url \<rightharpoonup> response) \<times> (request \<times> response \<times> bool) list"

definition sw_abs :: "sw_state \<Rightarrow> abs_cache" where
  "sw_abs s = (storage_view (caches s), map (\<lambda>(rq, r, g). (rq, r, cache_live g s)) (pending s))"

fun cache_spec :: "abs_cache \<Rightarrow> sw_event \<Rightarrow> abs_cache" where
  "cache_spec (m, ps) (EvFetch rq net) =
     (if req_method rq = ''GET'' \<and> m (req_url rq) \<noteq> None then (m, ps)
      else (case net of
              Some r \<Rightarrow> (if resp_status r = 200 \<and> resp_type r = Basic then (m, ps @ [(rq, r, True)])
                         else (m, ps))
            | None \<Rightarrow> (m, ps)))"
| "cache_spec (m, ps) (EvPutDone i) =
     (case drop i ps of
        [] \<Rightarrow> (m, ps)
      | (rq, r, live) # _ \<Rightarrow>
          (if live \<and> req_method rq = ''GET'' then m(req_url rq \<mapsto> r) else m,
           take i ps @ drop (Suc i) ps))"
| "cache_spec (m, ps) (EvMessage (MsgObject (Some a))) =
     (if a = ''clearCache'' then (Map.empty, map (\<lambda>(rq, r, _). (rq, r, False)) ps) else (m, ps))"
| "cache_spec (m, ps) e = (m, ps)"

subsection \<open>Effects of one dispatched event\<close>

lemma current_bucket_on_install:
  "current_bucket (caches (on_install net s)) = cache_apply (bucket_addAll net urlsToCache) (current_bucket (caches s))"
  by (simp add: current_bucket_def storage_simps)

lemma current_bucket_put_task:
  "current_bucket (put_task g rq r s) =
     (if cache_live g s then cache_apply (bucket_put rq r) (current_bucket (caches s)) else current_bucket (caches s))"
  by (simp add: current_bucket_def storage_simps)

lemma current_bucket_filter [simp]:
  "current_bucket (filter (\<lambda>(n, _). n = CACHE_NAME) cs) = current_bucket cs"
  by (simp add: current_bucket_def storage_bucket_def)

lemma cache_gen_on_install: "cache_gen s \<le> cache_gen (on_install net s)"
  by (simp add: on_install_def Let_def cache_gen_open_current)

lemma sw_handle_install:
  "sw_handle s (EvInstall net) = Some s' \<Longrightarrow> phase s = Parsed \<and> s' = on_install net s"
  by (simp split: if_splits)

lemma sw_handle_activate:
  "sw_handle s EvActivate = Some s' \<Longrightarrow> phase s = Installed \<and> s' = on_activate s"
  by (simp split: if_splits)

lemma sw_handle_put:
  "sw_handle s (EvPutDone i) = Some s' \<Longrightarrow> put_done i s = Some s'"
  by simp

lemma sw_handle_sync:
  "sw_handle s (EvSync tag) = Some s' \<Longrightarrow> s' = s"
  by (simp split: if_splits)

lemma sw_handle_push:
  "sw_handle s (EvPush d) = Some s' \<Longrightarrow> phase s = Activated \<and> s' = on_push d s"
  by (simp split: if_splits)

lemma sw_handle_click:
  "sw_handle s (EvNotificationClick nt act) = Some s' \<Longrightarrow>
     phase s = Activated \<and> nt \<in> set (displayed s) \<and> s' = on_notificationclick nt act s"
  by (simp split: if_splits)

lemma sw_handle_fetch:
  "sw_handle s (EvFetch rq net) = Some s' \<Longrightarrow>
     phase s = Activated \<and> (caches s' = caches s \<or> caches s' = storage_open CACHE_NAME (caches s))
     \<and> phase s' = phase s \<and> displayed s' = displayed s \<and> cache_gen s \<le> cache_gen s'
     \<and> (pending s' = pending s
        \<or> (\<exists>r. pending s' = pending s @ [(rq, r, cache_gen s')] \<and> resp_status r = 200 \<and> resp_type r = Basic))"
  using pending_on_fetch [of rq net s] caches_on_fetch [of rq net s] cache_gen_on_fetch [of s rq net]
  by (auto simp: Let_def handler_simps split: if_splits)

lemma sw_handle_message:
  "sw_handle s (EvMessage d) = Some s' \<Longrightarrow>
     s' = s \<or> s' = s\<lparr>skip_waiting := True\<rparr> \<or> s' = s\<lparr>caches := []\<rparr>"
  by (auto split: sum.splits dest: on_message_cases)

lemma list_all_remove_nth:
  "list_all P xs \<Longrightarrow> list_all P (take i xs @ drop (Suc i) xs)"
  unfolding list_all_iff by (auto dest: in_set_takeD in_set_dropD)

lemma pending_ok_put_done:
  "pending_ok ps \<Longrightarrow> pending_ok (take i ps @ drop (Suc i) ps)"
  unfolding pending_ok_def by (rule list_all_remove_nth)

lemma pending_ok_nth:
  "pending_ok ps \<Longrightarrow> i < length ps \<Longrightarrow> ps ! i = (rq, r, g) \<Longrightarrow> ok_status r"
  by (auto simp: pending_ok_def list_all_iff ok_status_def dest!: nth_mem)

lemmas sw_handle_dests = sw_handle_install sw_handle_activate sw_handle_put sw_handle_sync
  sw_handle_push sw_handle_click sw_handle_fetch sw_handle_message

declare sw_handle.simps [simp del]

subsection \<open>The invariant, conjunct by conjunct\<close>

lemma sw_handle_storage_wf:
  "sw_handle s e = Some s' \<Longrightarrow> storage_wf (caches s) \<Longrightarrow> storage_wf (caches s')"
  by (cases e) (auto simp: on_activate_def handler_simps dest!: sw_handle_dests put_done_SomeD)

lemma cached_ok_Nil [simp]: "cached_ok []"
  by (simp add: cached_ok_def current_bucket_def storage_bucket_def)

lemma cached_ok_filter [simp]: "cached_ok (filter (\<lambda>(n, _). n = CACHE_NAME) cs) = cached_ok cs"
  by (simp add: cached_ok_def)

lemma cached_ok_open [simp]: "cached_ok (storage_open CACHE_NAME cs) = cached_ok cs"
  by (simp add: cached_ok_def current_bucket_def storage_simps split: option.splits)

lemma cached_ok_on_install:
  assumes "cached_ok (caches s)"
  shows "cached_ok (caches (on_install net s))"
  using cache_apply_cases [of "bucket_addAll net urlsToCache" "current_bucket (caches s)"] assms
  by (auto simp: cached_ok_def current_bucket_on_install dest: bucket_addAll_ok)

lemma cached_ok_put_task:
  assumes "cached_ok (caches s)" and "ok_status r"
  shows "cached_ok (put_task g rq r s)"
proof (cases "cache_live g s \<and> req_method rq = ''GET''")
  case True
  have "list_all (\<lambda>(_, r). ok_status r) (alist_put (req_url rq) r (current_bucket (caches s)))"
    using assms set_alist_put [of "req_url rq" r "current_bucket (caches s)"]
    by (fastforce simp: cached_ok_def list_all_iff)
  with True show ?thesis
    by (simp add: cached_ok_def current_bucket_put_task cache_apply_put_get)
next
  case False
  with assms show ?thesis
    by (auto simp: cached_ok_def current_bucket_put_task cache_apply_put_not_get)
qed

lemma cached_ok_put_done:
  assumes "put_done i s = Some s'" and "cached_ok (caches s)" and "pending_ok (pending s)"
  shows "cached_ok (caches s')"
proof -
  from put_done_SomeD [OF assms(1)] obtain rq r g where
    i: "i < length (pending s)" "pending s ! i = (rq, r, g)" and c: "caches s' = put_task g rq r s"
    by blast
  from assms(3) i have "ok_status r" by (rule pending_ok_nth)
  with assms(2) c show ?thesis by (simp add: cached_ok_put_task)
qed

lemma sw_handle_cached_ok:
  "sw_handle s e = Some s' \<Longrightarrow> cached_ok (caches s) \<Longrightarrow> pending_ok (pending s) \<Longrightarrow> cached_ok (caches s')"
  by (cases e)
    (auto simp: storage_simps handler_simps cached_ok_on_install
      dest!: sw_handle_dests intro: cached_ok_put_done)

lemma pending_ok_append:
  "pending_ok ps \<Longrightarrow> resp_status r = 200 \<Longrightarrow> resp_type r = Basic \<Longrightarrow> pending_ok (ps @ [(rq, r, g)])"
  by (simp add: pending_ok_def)

lemma sw_handle_pending_ok:
  "sw_handle s e = Some s' \<Longrightarrow> pending_ok (pending s) \<Longrightarrow> pending_ok (pending s')"
  by (cases e)
    (auto simp: on_install_def Let_def on_activate_def handler_simps
      dest!: sw_handle_dests put_done_SomeD intro: pending_ok_put_done pending_ok_append)

lemma gens_le_mono:
  "list_all (\<lambda>(_, _, g). g \<le> n) ps \<Longrightarrow> n \<le> (m::nat) \<Longrightarrow> list_all (\<lambda>(_, _, g). g \<le> m) ps"
  by (induction ps) (auto intro: le_trans)

lemma pending_gen_ok_mono:
  "pending_gen_ok s \<Longrightarrow> pending s' = pending s \<Longrightarrow> cache_gen s \<le> cache_gen s' \<Longrightarrow> pending_gen_ok s'"
  unfolding pending_gen_ok_def by (metis gens_le_mono)

lemma sw_handle_pending_gen_ok:
  assumes "sw_handle s e = Some s'" and "pending_gen_ok s"
  shows "pending_gen_ok s'"
proof (cases e)
  case (EvPutDone i)
  with assms(1) have "put_done i s = Some s'" by (simp add: sw_handle_put)
  from put_done_SomeD [OF this]
  have "pending s' = take i (pending s) @ drop (Suc i) (pending s)" and "cache_gen s' = cache_gen s"
    by auto
  with assms(2) show ?thesis
    unfolding pending_gen_ok_def by (metis list_all_remove_nth)
next
  case (EvFetch rq net)
  with assms show ?thesis
    by (auto simp: pending_gen_ok_def dest!: sw_handle_fetch intro: gens_le_mono)
next
  case (EvInstall net)
  with assms show ?thesis
    by (auto intro: pending_gen_ok_mono cache_gen_on_install simp: on_install_def Let_def
        dest!: sw_handle_install)
qed (use assms in \<open>auto simp: pending_gen_ok_def on_activate_def handler_simps dest!: sw_handle_dests\<close>)

lemma only_current_put_done:
  assumes "put_done i s = Some s'" and "only_current s"
  shows "only_current s'"
proof -
  from put_done_SomeD [OF assms(1)] obtain rq r g where
    "caches s' = put_task g rq r s" "phase s' = phase s" by blast
  with assms(2) show ?thesis
    by (auto simp: only_current_def storage_simps split: if_splits)
qed

lemma sw_handle_only_current:
  assumes "sw_handle s e = Some s'" and "only_current s"
  shows "only_current s'"
proof (cases e)
  case (EvPutDone i)
  with assms show ?thesis by (auto dest: sw_handle_put intro: only_current_put_done)
qed (use assms in \<open>auto simp: only_current_def on_install_def Let_def on_activate_def storage_simps
       handler_simps split: if_splits dest!: sw_handle_dests\<close>)

lemma sw_handle_notif_ok:
  "sw_handle s e = Some s' \<Longrightarrow> notif_ok (displayed s) \<Longrightarrow> notif_ok (displayed s')"
  by (cases e)
    (auto simp: notif_ok_def on_install_def Let_def on_activate_def on_push_def handler_simps
      show_notification_single push_notification_def list_all_iff
      dest!: sw_handle_dests put_done_SomeD intro: le_trans [OF length_filter_le])

lemma sw_handle_inv: "sw_handle s e = Some s' \<Longrightarrow> sw_inv s \<Longrightarrow> sw_inv s'"
  unfolding sw_inv_def
  using sw_handle_storage_wf sw_handle_cached_ok sw_handle_pending_ok sw_handle_pending_gen_ok
    sw_handle_only_current sw_handle_notif_ok
  by blast

lemma sw_init_inv: "storage_wf cs \<Longrightarrow> cached_ok cs \<Longrightarrow> sw_inv (sw_init cs)"
  by (simp add: sw_inv_def pending_ok_def pending_gen_ok_def only_current_def notif_ok_def)

lemma sw_reachable_inv: "sw_reachable s \<Longrightarrow> sw_inv s"
proof (induction rule: sw_reachable.induct)
  case (init cs)
  then show ?case by (rule sw_init_inv)
next
  case (step s e s')
  then show ?case by (blast intro: sw_handle_inv)
qed

lemma sw_run_reachable: "sw_reachable s \<Longrightarrow> sw_run s es = Some s' \<Longrightarrow> sw_reachable s'"
proof (induction es arbitrary: s)
  case Nil
  then show ?case by simp
next
  case (Cons e es)
  then show ?case
    by (auto split: option.splits intro: sw_reachable.step)
qed

lemma sw_reachable_active_single:
  assumes "sw_reachable s" and "phase s = Activated"
  shows "storage_wf (caches s) \<and> set (storage_keys (caches s)) \<subseteq> {CACHE_NAME}"
  using sw_reachable_inv [OF assms(1)] assms(2) by (simp add: sw_inv_def only_current_def)

subsection \<open>The abstract cache under each event\<close>

lemma cache_live_upd [simp]:
  "cache_live g (s\<lparr>net_log := l\<rparr>) = cache_live g s" "cache_live g (s\<lparr>pending := p\<rparr>) = cache_live g s"
  "cache_live g (s\<lparr>served := v\<rparr>) = cache_live g s" "cache_live g (s\<lparr>skip_waiting := b\<rparr>) = cache_live g s"
  by (simp_all add: cache_live_def)

lemma live_open_current: "g \<le> cache_gen s \<Longrightarrow> cache_live g (open_current s) = cache_live g s"
  by (auto simp: cache_live_def open_current_def storage_simps)

lemma map_live_open_current:
  "list_all (\<lambda>(_, _, g). g \<le> cache_gen s) ps \<Longrightarrow>
   map (\<lambda>(rq, r, g). (rq, r, cache_live g (open_current s))) ps = map (\<lambda>(rq, r, g). (rq, r, cache_live g s)) ps"
  by (induction ps) (auto simp: live_open_current)

lemma abs_fetch:
  assumes wf: "storage_wf (caches s)" and only: "set (storage_keys (caches s)) \<subseteq> {CACHE_NAME}"
    and gen: "pending_gen_ok s"
  shows "sw_abs (snd (on_fetch rq net s)) = cache_spec (sw_abs s) (EvFetch rq net)"
proof (cases "storage_match (caches s) rq")
  case (Some r)
  then have "req_method rq = ''GET'' \<and> storage_view (caches s) (req_url rq) \<noteq> None"
    by (simp add: storage_match_view split: if_splits)
  with Some show ?thesis by (simp add: on_fetch_def sw_abs_def split: option.splits)
next
  case None
  then have miss: "\<not> (req_method rq = ''GET'' \<and> storage_view (caches s) (req_url rq) \<noteq> None)"
    by (simp add: storage_match_view split: if_splits)
  have live: "map (\<lambda>(rq, r, g). (rq, r, cache_live g (open_current s))) (pending s)
      = map (\<lambda>(rq, r, g). (rq, r, cache_live g s)) (pending s)"
    using gen by (simp add: pending_gen_ok_def map_live_open_current)
  show ?thesis
    using miss None storage_view_open [OF wf only] cache_live_open_current [of s]
    by (cases net) (simp_all add: on_fetch_def Let_def sw_abs_def live storage_simps)
qed

lemma abs_put_done:
  assumes wf: "storage_wf (caches s)" and only: "set (storage_keys (caches s)) \<subseteq> {CACHE_NAME}"
    and put: "put_done i s = Some s'"
  shows "sw_abs s' = cache_spec (sw_abs s) (EvPutDone i)"
proof -
  from put_done_SomeD [OF put] obtain rq r g where i: "i < length (pending s)" "pending s ! i = (rq, r, g)"
    and c: "caches s' = put_task g rq r s"
    and p: "pending s' = take i (pending s) @ drop (Suc i) (pending s)" and n: "cache_gen s' = cache_gen s"
    by blast
  have live: "\<And>h. cache_live h s' = cache_live h s"
    using c n by (simp add: cache_live_def storage_simps)
  from i have d: "drop i (pending s) = (rq, r, g) # drop (Suc i) (pending s)"
    by (metis Cons_nth_drop_Suc)
  show ?thesis
    by (simp add: sw_abs_def c p live storage_view_put_task [OF wf only] d take_map drop_map)
qed

lemma abs_message:
  "sw_handle s (EvMessage d) = Some s' \<Longrightarrow> sw_abs s' = cache_spec (sw_abs s) (EvMessage d)"
proof (cases d)
  case (MsgObject a)
  assume step: "sw_handle s (EvMessage d) = Some s'"
  show ?thesis
  proof (cases "a = Some ''clearCache''")
    case True
    with MsgObject step have "s' = s\<lparr>caches := []\<rparr>"
      by (simp add: sw_handle.simps handler_simps)
    with MsgObject True show ?thesis
      by (simp add: sw_abs_def cache_live_def storage_view_def storage_keys_def comp_def split_def)
  next
    case False
    with MsgObject step show ?thesis
      by (cases a) (auto simp: sw_handle.simps on_message_def Let_def sw_abs_def)
  qed
qed (auto simp: sw_handle.simps on_message_def sw_abs_def)

text \<open>The definitions a concrete run unfolds, for the witnesses.\<close>

lemmas sw_eval_simps = sw_handle.simps on_install_def on_activate_def on_fetch_def put_done_def
  put_task_def open_current_def cache_live_def on_push_def on_notificationclick_def on_message_def
  urlsToCache_def CACHE_NAME_def bucket_addAll_def cache_apply_def storage_open_def storage_update_def
  alist_map_at_def delete_each_filter bucket_match_def storage_keys_def bucket_put_def
  show_notification_def push_notification_def

lemma reachable_from_run:
  "sw_run (sw_init cs) es = Some s \<Longrightarrow> storage_wf cs \<Longrightarrow> cached_ok cs \<Longrightarrow> sw_reachable s"
  by (blast intro: sw_run_reachable sw_reachable.init)

subsection \<open>Properties of every reachable state\<close>

text \<open>
  C2. Round trip of the deferred write: once the write of a GET response completes on
  the Cache object that is still stored, in a reachable state of the active worker,
  \<open>caches.match\<close> of the same request finds that response; by C1 the next fetch
  of the request is then answered from the cache without a network request.
\<close>

theorem put_then_match:
  assumes "sw_reachable s" and "phase s = Activated"
    and "pending s ! i = (rq, r, g)" and "cache_live g s"
    and "put_done i s = Some s'" and "req_method rq = ''GET''"
  shows "storage_match (caches s') rq = Some r"
proof -
  from sw_reachable_active_single [OF assms(1,2)]
  have wf: "storage_wf (caches s)" and only: "set (storage_keys (caches s)) \<subseteq> {CACHE_NAME}"
    by auto
  from put_done_SomeD [OF assms(5)] assms(3) have c: "caches s' = put_task g rq r s"
    by auto
  have "storage_view (caches s') (req_url rq) = Some r"
    using storage_view_put_task [OF wf only] c assms(4,6) by simp
  then show ?thesis
    using assms(6) by (simp add: storage_match_view)
qed

theorem put_then_match_witness:
  "\<exists>s s'. sw_run (sw_init []) [EvInstall (\<lambda>_. Some (basic_200 ''a'')), EvActivate,
            EvFetch (url_request ''/x'') (Some (basic_200 ''x''))] = Some s
     \<and> sw_reachable s \<and> phase s = Activated \<and> pending s ! 0 = (url_request ''/x'', basic_200 ''x'', 1)
     \<and> cache_live 1 s \<and> put_done 0 s = Some s' \<and> req_method (url_request ''/x'') = ''GET''
     \<and> storage_match (caches s') (url_request ''/x'') = Some (basic_200 ''x'')"
proof -
  have "\<exists>s. sw_run (sw_init []) [EvInstall (\<lambda>_. Some (basic_200 ''a'')), EvActivate,
            EvFetch (url_request ''/x'') (Some (basic_200 ''x''))] = Some s
          \<and> phase s = Activated \<and> pending s = [(url_request ''/x'', basic_200 ''x'', 1)] \<and> cache_live 1 s"
    by (simp add: sw_eval_simps)
  then obtain s where run: "sw_run (sw_init []) [EvInstall (\<lambda>_. Some (basic_200 ''a'')), EvActivate,
            EvFetch (url_request ''/x'') (Some (basic_200 ''x''))] = Some s"
    and ph: "phase s = Activated" and p: "pending s = [(url_request ''/x'', basic_200 ''x'', 1)]"
    and live: "cache_live 1 s"
    by blast
  have reach: "sw_reachable s"
    using reachable_from_run [OF run] by simp
  from p obtain s' where put: "put_done 0 s = Some s'"
    using put_done_Some_iff [of 0 s] by auto
  from p have nth: "pending s ! 0 = (url_request ''/x'', basic_200 ''x'', 1)" by simp
  have "storage_match (caches s') (url_request ''/x'') = Some (basic_200 ''x'')"
    using put_then_match [OF reach ph nth live put] by simp
  with run reach ph nth live put show ?thesis by auto
qed

text \<open>
  C5. In every reachable state of the active worker the only cache left is the one
  named \<open>CACHE_NAME\<close> (or none, after \<open>clearCache\<close>): activation deleted the
  others, and nothing after it creates a cache of another name.
\<close>

theorem reachable_activated_only_current:
  assumes "sw_reachable s" and "phase s = Activated"
  shows "set (storage_keys (caches s)) \<subseteq> {CACHE_NAME}"
  using sw_reachable_inv [OF assms(1)] assms(2) by (simp add: sw_inv_def only_current_def)

theorem reachable_activated_only_current_witness:
  "\<exists>s. sw_run (sw_init [(''gamehub-v0'', [(''/'', basic_200 ''old'')])])
          [EvInstall (\<lambda>_. Some (basic_200 ''new'')), EvActivate] = Some s
     \<and> sw_reachable s \<and> phase s = Activated \<and> set (storage_keys (caches s)) \<subseteq> {CACHE_NAME}"
proof -
  have "\<exists>s. sw_run (sw_init [(''gamehub-v0'', [(''/'', basic_200 ''old'')])])
          [EvInstall (\<lambda>_. Some (basic_200 ''new'')), EvActivate] = Some s \<and> phase s = Activated"
    by (simp add: sw_eval_simps)
  then obtain s where run: "sw_run (sw_init [(''gamehub-v0'', [(''/'', basic_200 ''old'')])])
          [EvInstall (\<lambda>_. Some (basic_200 ''new'')), EvActivate] = Some s" and ph: "phase s = Activated"
    by blast
  have reach: "sw_reachable s"
    using reachable_from_run [OF run]
    by (simp add: storage_wf_def storage_keys_def cached_ok_def current_bucket_def storage_bucket_def
        CACHE_NAME_def)
  show ?thesis
    using run reach ph reachable_activated_only_current [OF reach ph] by blast
qed

text \<open>
  C9. Every response the active worker serves from its cache has an ok status
  (200--299): only such responses are ever written into the current cache.
\<close>

theorem reachable_served_ok:
  assumes "sw_reachable s" and "phase s = Activated" and "storage_match (caches s) rq = Some r"
  shows "ok_status r"
proof -
  from sw_reachable_inv [OF assms(1)] have ok: "cached_ok (caches s)"
    by (simp add: sw_inv_def)
  from sw_reachable_active_single [OF assms(1,2)]
  have "storage_view (caches s) = map_of (current_bucket (caches s))"
    using storage_view_single by (auto simp: current_bucket_def split: option.splits)
  with assms(3) have "map_of (current_bucket (caches s)) (req_url rq) = Some r"
    by (simp add: storage_match_view split: if_splits)
  then have "(req_url rq, r) \<in> set (current_bucket (caches s))"
    by (rule map_of_SomeD)
  with ok show ?thesis
    by (auto simp: cached_ok_def list_all_iff)
qed

theorem reachable_served_ok_witness:
  "\<exists>s. sw_run (sw_init []) [EvInstall (\<lambda>_. Some (basic_200 ''page'')), EvActivate] = Some s
     \<and> sw_reachable s \<and> phase s = Activated
     \<and> storage_match (caches s) (url_request ''/index.html'') = Some (basic_200 ''page'')
     \<and> ok_status (basic_200 ''page'')"
proof -
  have "\<exists>s. sw_run (sw_init []) [EvInstall (\<lambda>_. Some (basic_200 ''page'')), EvActivate] = Some s
      \<and> phase s = Activated \<and> storage_match (caches s) (url_request ''/index.html'') = Some (basic_200 ''page'')"
    by (simp add: sw_eval_simps)
  then obtain s where run: "sw_run (sw_init []) [EvInstall (\<lambda>_. Some (basic_200 ''page'')), EvActivate] = Some s"
    and ph: "phase s = Activated"
    and m: "storage_match (caches s) (url_request ''/index.html'') = Some (basic_200 ''page'')"
    by blast
  have reach: "sw_reachable s" using reachable_from_run [OF run] by simp
  show ?thesis
    using run reach ph m reachable_served_ok [OF reach ph m] by blast
qed

text \<open>
  C10. Refinement. While the worker is active, every event changes the abstract cache
  (the map from URLs to responses, and the queued writes marked live or dead) exactly as
  \<open>cache_spec\<close> says: a fetch the map answers changes nothing, a miss answered 200
  \<open>basic\<close> queues a live write, a completed write updates the map only when it is live
  and of a GET request, \<open>clearCache\<close> empties the map and kills every queued write,
  and no other event changes the abstract cache.
\<close>

theorem cache_refines_spec:
  assumes reach: "sw_reachable s" and act: "phase s = Activated" and step: "sw_handle s e = Some s'"
  shows "sw_abs s' = cache_spec (sw_abs s) e"
proof -
  from sw_reachable_active_single [OF reach act]
  have wf: "storage_wf (caches s)" and only: "set (storage_keys (caches s)) \<subseteq> {CACHE_NAME}"
    by auto
  from sw_reachable_inv [OF reach] have gen: "pending_gen_ok s"
    by (simp add: sw_inv_def)
  show ?thesis
  proof (cases e)
    case (EvFetch rq net)
    with step act have "sw_abs s' = sw_abs (snd (on_fetch rq net s))"
      by (auto simp: sw_handle.simps Let_def sw_abs_def)
    with EvFetch show ?thesis
      using abs_fetch [OF wf only gen] by simp
  next
    case (EvPutDone i)
    with step have "put_done i s = Some s'" by (simp add: sw_handle_put)
    with EvPutDone show ?thesis
      using abs_put_done [OF wf only] by simp
  next
    case (EvMessage d)
    with step show ?thesis by (simp add: abs_message)
  qed (use step act in \<open>auto simp: sw_abs_def cache_live_def handler_simps dest!: sw_handle_dests\<close>)
qed

theorem cache_refines_spec_witness:
  "\<exists>s s'. sw_run (sw_init []) [EvInstall (\<lambda>_. Some (basic_200 ''a'')), EvActivate,
            EvFetch (url_request ''/y'') (Some (basic_200 ''y'')),
            EvMessage (MsgObject (Some ''clearCache''))] = Some s
     \<and> sw_reachable s \<and> phase s = Activated \<and> sw_handle s (EvPutDone 0) = Some s'
     \<and> sw_abs s' = cache_spec (sw_abs s) (EvPutDone 0)"
proof -
  have "\<exists>s. sw_run (sw_init []) [EvInstall (\<lambda>_. Some (basic_200 ''a'')), EvActivate,
            EvFetch (url_request ''/y'') (Some (basic_200 ''y'')),
            EvMessage (MsgObject (Some ''clearCache''))] = Some s
          \<and> phase s = Activated \<and> pending s = [(url_request ''/y'', basic_200 ''y'', 1)]"
    by (simp add: sw_eval_simps)
  then obtain s where run: "sw_run (sw_init []) [EvInstall (\<lambda>_. Some (basic_200 ''a'')), EvActivate,
            EvFetch (url_request ''/y'') (Some (basic_200 ''y'')),
            EvMessage (MsgObject (Some ''clearCache''))] = Some s"
    and ph: "phase s = Activated" and p: "pending s = [(url_request ''/y'', basic_200 ''y'', 1)]"
    by blast
  have reach: "sw_reachable s" using reachable_from_run [OF run] by simp
  from p obtain s' where put: "sw_handle s (EvPutDone 0) = Some s'"
    using put_done_Some_iff [of 0 s] by (auto simp: sw_handle.simps)
  show ?thesis
    using run reach ph put cache_refines_spec [OF reach ph put] by blast
qed

text \<open>
  C14. A write still queued when \<open>clearCache\<close> runs is lost: \<open>caches.open\<close>
  returned its Cache object before the delete, \<open>cache.put\<close> writes into that
  deleted object, and the storage stays empty.
\<close>

theorem clear_cache_then_pending_write:
  assumes "pending s = (rq, r, g) # ps"
  shows "\<exists>s'. sw_run s [EvMessage (MsgObject (Some ''clearCache'')), EvPutDone 0] = Some s'
           \<and> caches s' = [] \<and> pending s' = ps"
  using assms
  by (simp add: sw_handle.simps handler_simps put_done_def put_task_def cache_live_def storage_keys_def)

theorem clear_cache_then_pending_write_witness:
  "\<exists>s s'. sw_run (sw_init []) [EvInstall (\<lambda>_. Some (basic_200 ''a'')), EvActivate,
            EvFetch (url_request ''/z'') (Some (basic_200 ''z''))] = Some s
     \<and> pending s = [(url_request ''/z'', basic_200 ''z'', 1)]
     \<and> sw_run s [EvMessage (MsgObject (Some ''clearCache'')), EvPutDone 0] = Some s'
     \<and> caches s' = [] \<and> pending s' = []"
proof -
  have "\<exists>s. sw_run (sw_init []) [EvInstall (\<lambda>_. Some (basic_200 ''a'')), EvActivate,
            EvFetch (url_request ''/z'') (Some (basic_200 ''z''))] = Some s
          \<and> pending s = [(url_request ''/z'', basic_200 ''z'', 1)]"
    by (simp add: sw_eval_simps)
  then obtain s where run: "sw_run (sw_init []) [EvInstall (\<lambda>_. Some (basic_200 ''a'')), EvActivate,
            EvFetch (url_request ''/z'') (Some (basic_200 ''z''))] = Some s"
    and p: "pending s = [(url_request ''/z'', basic_200 ''z'', 1)]"
    by blast
  show ?thesis
    using run p clear_cache_then_pending_write [OF p] by auto
qed

text \<open>
  C15. A push always shows its notification under the tag \<open>gamehub-notification\<close>,
  which replaces a displayed notification of the same tag: in every reachable state at
  most one notification is on screen, and it is a GameHub push notification.
\<close>

theorem reachable_one_push_notification:
  assumes "sw_reachable s"
  shows "length (displayed s) \<le> 1 \<and> list_all (\<lambda>n. n_tag n = ''gamehub-notification'') (displayed s)"
  using sw_reachable_inv [OF assms] by (simp add: sw_inv_def notif_ok_def)

theorem reachable_one_push_notification_witness:
  "\<exists>s. sw_run (sw_init []) [EvInstall (\<lambda>_. Some (basic_200 ''a'')), EvActivate, EvPush (Some ''hola''), EvPush None] = Some s
     \<and> sw_reachable s \<and> length (displayed s) \<le> 1
     \<and> list_all (\<lambda>n. n_tag n = ''gamehub-notification'') (displayed s)"
proof -
  have "\<exists>s. sw_run (sw_init []) [EvInstall (\<lambda>_. Some (basic_200 ''a'')), EvActivate, EvPush (Some ''hola''), EvPush None] = Some s"
    by (simp add: sw_eval_simps)
  then obtain s where run: "sw_run (sw_init []) [EvInstall (\<lambda>_. Some (basic_200 ''a'')), EvActivate, EvPush (Some ''hola''), EvPush None] = Some s"
    by blast
  have reach: "sw_reachable s" using reachable_from_run [OF run] by simp
  show ?thesis
    using run reach reachable_one_push_notification [OF reach] by blast
qed

end
