(* ===== verification/Page.thy ===== *)
theory Page
  imports Prelude
begin

text \<open>
  The page controller \<open>src/pwa/app.js\<close>: the part of the DOM its listeners read and
  write, as one record, and one definition per listener. Each handler takes the page and
  returns the page after it; a handler that can throw (a property read on \<open>null\<close>)
  returns the page as it stood when the exception escaped, with the error, because the
  DOM changes made before the throw stay. Timers set with \<open>setTimeout\<close> are queued
  in \<open>ptimers\<close> with their due time and the work of their callback (\<open>ptask\<close>); the
  event loop that runs them is in \<open>PageEvents\<close>. Labels with non-ASCII letters are
  transliterated: \<open>Anadir al Carrito\<close>, \<open>(check) Agregado\<close>, \<open>exito\<close>.
\<close>

datatype anim = SlideIn | SlideOut

datatype dom_error = NullElement

record toast =
  t_msg :: string
  t_top :: string
  t_created :: nat
  t_anim :: anim
  t_attached :: bool

text \<open>
  An element carrying a \<open>data-page\<close> attribute; \<open>in_nav\<close> marks the links of
  \<open>.nav-menu a, .custom-title-bar .nav-menu a\<close> (line 71), the only ones with a click
  listener and the only ones line 79 deactivates. A \<open>.nav-menu a\<close> link without the
  attribute has \<open>data_page = None\<close>.
\<close>

record nav_link =
  data_page :: "string option"
  link_active :: bool
  in_nav :: bool

record page_el =
  page_id :: string
  page_active :: bool

record small_btn =
  sb_text :: string
  sb_background :: string
  sb_transform :: string

record group_btn =
  gb_text :: string
  gb_active :: bool

record lib_btn =
  lb_text :: string
  lb_title :: "string option"
  lb_disabled :: bool
  lb_primary :: bool

datatype ptask = ScaleBack nat | ToastOut nat | ToastRemove nat | InstallDone nat string

record page =
  now :: nat
  wco_visible :: bool
  nav_links :: "nav_link list"
  pages :: "page_el list"
  cartCount :: nat
  cart_shown :: "nat list"
  small_btns :: "small_btn list"
  filter_btns :: "group_btn list"
  tab_btns :: "group_btn list"
  library :: "lib_btn list"
  toasts :: "toast list"
  ptimers :: "(nat \<times> ptask) list"
  deferredPrompt :: "nat option"
  install_btns :: "bool list"
  awaiting :: "(nat \<times> nat) list"

definition ADD_LABEL :: string where
  "ADD_LABEL = ''Anadir al Carrito''"

definition ADDED_LABEL :: string where
  "ADDED_LABEL = ''(check) Agregado''"

subsection \<open>Timers and toast notifications (lines 134--156)\<close>

definition setTimeout :: "nat \<Rightarrow> ptask \<Rightarrow> page \<Rightarrow> page" where
  "setTimeout ms task p = p\<lparr>ptimers := ptimers p @ [(now p + ms, task)]\<rparr>"

definition toast_top :: "bool \<Rightarrow> string" where
  "toast_top v = (if v then ''calc(env(titlebar-area-height, 50px) + 20px)'' else ''20px'')"

definition showNotification :: "string \<Rightarrow> page \<Rightarrow> page" where
  "showNotification msg p =
     setTimeout 3000 (ToastOut (length (toasts p)))
       (p\<lparr>toasts := toasts p @ [\<lparr>t_msg = msg, t_top = toast_top (wco_visible p), t_created = now p,
                                  t_anim = SlideIn, t_attached = True\<rparr>]\<rparr>)"

subsection \<open>Navigation (lines 69--96)\<close>

definition js_string_of :: "string option \<Rightarrow> string" where
  "js_string_of v = (case v of None \<Rightarrow> ''null'' | Some x \<Rightarrow> x)"

text \<open>\<open>document.getElementById(id).classList.add('active')\<close>: the first page with the id.\<close>

fun activate_first :: "string \<Rightarrow> page_el list \<Rightarrow> page_el list option" where
  "activate_first i [] = None"
| "activate_first i (q # qs) =
     (if page_id q = i then Some (q\<lparr>page_active := True\<rparr> # qs)
      else map_option (Cons q) (activate_first i qs))"

definition nav_click :: "nat \<Rightarrow> page \<Rightarrow> page \<times> dom_error option" where
  "nav_click i p =
     (case drop i (nav_links p) of
        [] \<Rightarrow> (p, None)
      | l # _ \<Rightarrow>
          if \<not> in_nav l then (p, None) else
          (let pid = data_page l;
               ls = map (\<lambda>l'. if in_nav l' then l'\<lparr>link_active := False\<rparr> else l') (nav_links p);
               ls' = map (\<lambda>l'. if data_page l' = Some (js_string_of pid) then l'\<lparr>link_active := True\<rparr> else l') ls;
               ps = map (\<lambda>q. q\<lparr>page_active := False\<rparr>) (pages p);
               p1 = p\<lparr>nav_links := ls', pages := ps\<rparr>
           in case activate_first (js_string_of pid @ ''-page'') ps of
                None \<Rightarrow> (p1, Some NullElement)
              | Some ps' \<Rightarrow> (p1\<lparr>pages := ps'\<rparr>, None)))"

subsection \<open>Cart (lines 101--132)\<close>

definition updateCartCount :: "page \<Rightarrow> page" where
  "updateCartCount p = p\<lparr>cart_shown := map (\<lambda>_. cartCount p) (cart_shown p)\<rparr>"

definition cart_click :: "nat \<Rightarrow> page \<Rightarrow> page" where
  "cart_click j p =
     (case drop j (small_btns p) of
        [] \<Rightarrow> p
      | b # _ \<Rightarrow>
          (if sb_text b = ADD_LABEL
           then (let p1 = updateCartCount (p\<lparr>cartCount := Suc (cartCount p)\<rparr>);
                     p2 = p1\<lparr>small_btns := (small_btns p1)[j := b\<lparr>sb_text := ADDED_LABEL,
                              sb_background := ''#10b981'', sb_transform := ''scale(0.95)''\<rparr>]\<rparr>
                 in showNotification ''Juego agregado al carrito'' (setTimeout 100 (ScaleBack j) p2))
           else p))"

subsection \<open>Search, filters, tabs, profile, settings (lines 158--205)\<close>

text \<open>\<open>prompt(...)\<close> answers \<open>None\<close> (\<open>null\<close>, cancelled) or a string; \<open>''''\<close> is falsy.\<close>

definition on_search :: "string option \<Rightarrow> page \<Rightarrow> page" where
  "on_search answer p =
     (case answer of
        None \<Rightarrow> p
      | Some t \<Rightarrow> (if t \<noteq> [] then showNotification (''Buscando: '' @ t) p else p))"

definition group_select :: "nat \<Rightarrow> group_btn list \<Rightarrow> group_btn list" where
  "group_select k bs = map_at k (\<lambda>b. b\<lparr>gb_active := True\<rparr>) (map (\<lambda>b. b\<lparr>gb_active := False\<rparr>) bs)"

definition filter_click :: "nat \<Rightarrow> page \<Rightarrow> page" where
  "filter_click k p =
     (case drop k (filter_btns p) of
        [] \<Rightarrow> p
      | b # _ \<Rightarrow> showNotification (''Filtro aplicado: '' @ gb_text b)
                  (p\<lparr>filter_btns := group_select k (filter_btns p)\<rparr>))"

definition tab_click :: "nat \<Rightarrow> page \<Rightarrow> page" where
  "tab_click k p =
     (case drop k (tab_btns p) of
        [] \<Rightarrow> p
      | b # _ \<Rightarrow> showNotification (''Mostrando: '' @ gb_text b)
                  (p\<lparr>tab_btns := group_select k (tab_btns p)\<rparr>))"

definition on_profile_submit :: "page \<Rightarrow> page" where
  "on_profile_submit p = showNotification ''Perfil actualizado con exito'' p"

text \<open>
  The label of a switch is read through \<open>parentElement.parentElement.querySelector('span')\<close>;
  \<open>None\<close> is a missing \<open>span\<close>, whose \<open>textContent\<close> throws.
\<close>

definition on_switch_change :: "string option \<Rightarrow> bool \<Rightarrow> page \<Rightarrow> page \<times> dom_error option" where
  "on_switch_change setting checked p =
     (case setting of
        None \<Rightarrow> (p, Some NullElement)
      | Some st \<Rightarrow> (showNotification (st @ '' '' @ (if checked then ''activado'' else ''desactivado'')) p, None))"

subsection \<open>Library buttons (lines 234--257)\<close>

text \<open>
  The characters \<open>String.prototype.trim\<close> removes that a string of the model can hold:
  a \<open>char\<close> is one code unit below 256, read as Latin-1, so of the JavaScript white
  space and line terminators only tab, line feed, vertical tab, form feed, carriage
  return, space and no-break space (U+00A0) occur; U+FEFF, U+1680, U+2000--U+200A,
  U+2028, U+2029, U+202F, U+205F and U+3000 lie outside the type.
\<close>

definition js_whitespace :: "char \<Rightarrow> bool" where
  "js_whitespace c \<longleftrightarrow> c \<in> {CHR '' '', CHR 0x09, CHR 0x0A, CHR 0x0B, CHR 0x0C, CHR 0x0D, CHR 0xA0}"

definition js_trim :: "string \<Rightarrow> string" where
  "js_trim s = rev (dropWhile js_whitespace (rev (dropWhile js_whitespace s)))"

definition library_click :: "nat \<Rightarrow> page \<Rightarrow> page \<times> dom_error option" where
  "library_click j p =
     (case drop j (library p) of
        [] \<Rightarrow> (p, None)
      | b # _ \<Rightarrow>
          (let action = js_trim (lb_text b) in
           case lb_title b of
             None \<Rightarrow> (p, Some NullElement)
           | Some title \<Rightarrow>
               (if action = ''Jugar'' then (showNotification (''Iniciando '' @ title @ ''...'') p, None)
                else if action = ''Instalar''
                then (let p1 = showNotification (''Instalando '' @ title @ ''...'') p;
                          p2 = p1\<lparr>library := (library p1)[j := b\<lparr>lb_text := ''Instalando...'', lb_disabled := True\<rparr>]\<rparr>
                      in (setTimeout 3000 (InstallDone j title) p2, None))
                else (p, None))))"

subsection \<open>Other buttons (lines 259--279)\<close>

definition on_trailer_click :: "page \<Rightarrow> page" where
  "on_trailer_click p = showNotification ''Abriendo trailer...'' p"

definition on_buy_click :: "page \<Rightarrow> page" where
  "on_buy_click p = showNotification ''Procesando compra...'' p"

definition on_news_click :: "string option \<Rightarrow> page \<Rightarrow> page \<times> dom_error option" where
  "on_news_click title p =
     (case title of None \<Rightarrow> (p, Some NullElement) | Some t \<Rightarrow> (showNotification (''Abriendo: '' @ t) p, None))"

subsection \<open>Install prompt, app installed, connectivity (lines 281--329)\<close>

definition on_beforeinstallprompt :: "nat \<Rightarrow> page \<Rightarrow> page" where
  "on_beforeinstallprompt e p = p\<lparr>deferredPrompt := Some e, install_btns := install_btns p @ [True]\<rparr>"

text \<open>
  A click on install button \<open>k\<close>: with a saved prompt event, \<open>prompt()\<close> is called and
  the handler suspends at \<open>await deferredPrompt.userChoice\<close>.
\<close>

definition install_click :: "nat \<Rightarrow> page \<Rightarrow> page" where
  "install_click k p =
     (case deferredPrompt p of None \<Rightarrow> p | Some e \<Rightarrow> p\<lparr>awaiting := awaiting p @ [(k, e)]\<rparr>)"

text \<open>The rest of the click handler, once \<open>userChoice\<close> has resolved.\<close>

definition resume_install :: "nat \<Rightarrow> bool \<Rightarrow> page \<Rightarrow> page" where
  "resume_install k accepted p =
     (let p1 = (if accepted then showNotification ''App instalada con exito!'' p else p)
      in p1\<lparr>deferredPrompt := None, install_btns := (install_btns p1)[k := False]\<rparr>)"

text \<open>The \<open>userChoice\<close> promise of prompt event \<open>e\<close> resolves: every handler waiting on it resumes.\<close>

definition user_choice :: "nat \<Rightarrow> bool \<Rightarrow> page \<Rightarrow> page" where
  "user_choice e accepted p =
     fold (\<lambda>(k, e') q. if e' = e then resume_install k accepted q else q) (awaiting p)
       (p\<lparr>awaiting := filter (\<lambda>(_, e'). e' \<noteq> e) (awaiting p)\<rparr>)"

definition on_appinstalled :: "page \<Rightarrow> page" where
  "on_appinstalled p = (showNotification ''GameHub instalada correctamente!'' p)\<lparr>deferredPrompt := None\<rparr>"

definition on_online :: "page \<Rightarrow> page" where
  "on_online p = showNotification ''Conexion restaurada'' p"

definition on_offline :: "page \<Rightarrow> page" where
  "on_offline p = showNotification ''Modo offline activado'' p"

definition wco_initial :: "page \<Rightarrow> page" where
  "wco_initial p = (if wco_visible p then showNotification ''Modo ventana personalizada activado'' p else p)"

subsection \<open>Timer callbacks\<close>

fun run_task :: "ptask \<Rightarrow> page \<Rightarrow> page" where
  "run_task (ScaleBack j) p = p\<lparr>small_btns := map_at j (\<lambda>b. b\<lparr>sb_transform := ''scale(1)''\<rparr>) (small_btns p)\<rparr>"
| "run_task (ToastOut k) p =
     setTimeout 300 (ToastRemove k) (p\<lparr>toasts := map_at k (\<lambda>t. t\<lparr>t_anim := SlideOut\<rparr>) (toasts p)\<rparr>)"
| "run_task (ToastRemove k) p = p\<lparr>toasts := map_at k (\<lambda>t. t\<lparr>t_attached := False\<rparr>) (toasts p)\<rparr>"
| "run_task (InstallDone j title) p =
     showNotification (title @ '' instalado correctamente'')
       (p\<lparr>library := map_at j (\<lambda>b. b\<lparr>lb_text := ''Jugar'', lb_disabled := False, lb_primary := True\<rparr>) (library p)\<rparr>)"


subsection \<open>Loading the script\<close>

text \<open>
  The page once the script's top level has run: the counter \<open>cartCount = 0\<close> (line 102),
  no saved prompt (line 282), no toast and no timer, and the initial check of the window
  controls overlay (lines 42--46). The arguments are the elements of the HTML page the
  script queries; the \<open>.cart-count\<close> elements show \<open>0\<close>.
\<close>

definition page_load :: "bool \<Rightarrow> nav_link list \<Rightarrow> page_el list \<Rightarrow> nat \<Rightarrow> small_btn list \<Rightarrow>
    group_btn list \<Rightarrow> group_btn list \<Rightarrow> lib_btn list \<Rightarrow> page" where
  "page_load wco ls ps ncart sbs fbs tbs lib =
     wco_initial \<lparr>now = 0, wco_visible = wco, nav_links = ls, pages = ps, cartCount = 0,
       cart_shown = replicate ncart 0, small_btns = sbs, filter_btns = fbs, tab_btns = tbs,
       library = lib, toasts = [], ptimers = [], deferredPrompt = None, install_btns = [],
       awaiting = []\<rparr>"

subsection \<open>Helper facts\<close>

lemma showNotification_fields [simp]:
  "now (showNotification m p) = now p" "nav_links (showNotification m p) = nav_links p"
  "pages (showNotification m p) = pages p" "cartCount (showNotification m p) = cartCount p"
  "cart_shown (showNotification m p) = cart_shown p" "small_btns (showNotification m p) = small_btns p"
  "filter_btns (showNotification m p) = filter_btns p" "tab_btns (showNotification m p) = tab_btns p"
  "library (showNotification m p) = library p" "deferredPrompt (showNotification m p) = deferredPrompt p"
  "install_btns (showNotification m p) = install_btns p" "awaiting (showNotification m p) = awaiting p"
  "wco_visible (showNotification m p) = wco_visible p"
  by (simp_all add: showNotification_def setTimeout_def)

lemma showNotification_toasts:
  "toasts (showNotification m p) = toasts p @ [\<lparr>t_msg = m, t_top = toast_top (wco_visible p),
      t_created = now p, t_anim = SlideIn, t_attached = True\<rparr>]"
  "ptimers (showNotification m p) = ptimers p @ [(now p + 3000, ToastOut (length (toasts p)))]"
  by (simp_all add: showNotification_def setTimeout_def)

lemma activate_first_None: "activate_first x qs = None \<longleftrightarrow> \<not> list_ex (\<lambda>q. page_id q = x) qs"
  by (induction qs) auto

lemma activate_first_Some:
  assumes "activate_first x qs = Some qs'" and "list_all (\<lambda>q. \<not> page_active q) qs"
  shows "map page_id qs' = map page_id qs \<and> length (filter page_active qs') = 1
         \<and> list_all (\<lambda>q. page_active q \<longrightarrow> page_id q = x) qs'"
  using assms
proof (induction qs arbitrary: qs')
  case Nil
  then show ?case by simp
next
  case (Cons q qs)
  then show ?case
    by (auto simp: list_all_iff filter_empty_conv split: if_splits)
qed

lemma group_select_active:
  "k < length bs \<Longrightarrow> map gb_active (group_select k bs) = map (\<lambda>i. i = k) [0..<length bs]"
  by (rule nth_equalityI) (simp_all add: group_select_def nth_map_at)

lemma group_select_text [simp]: "map gb_text (group_select k bs) = map gb_text bs"
  by (rule nth_equalityI) (simp_all add: group_select_def nth_map_at)

lemma labels_differ [simp]: "ADD_LABEL \<noteq> ADDED_LABEL" "ADDED_LABEL \<noteq> ADD_LABEL"
  by (simp_all add: ADD_LABEL_def ADDED_LABEL_def)

lemma drop_nth_Cons: "j < length xs \<Longrightarrow> drop j xs = xs ! j # drop (Suc j) xs"
  by (simp add: Cons_nth_drop_Suc)

lemma cart_click_step:
  assumes "j < length (small_btns p)" and "sb_text (small_btns p ! j) = ADD_LABEL"
  shows "cart_click j p = showNotification ''Juego agregado al carrito''
           (setTimeout 100 (ScaleBack j) (p\<lparr>cartCount := Suc (cartCount p),
              cart_shown := map (\<lambda>_. Suc (cartCount p)) (cart_shown p),
              small_btns := (small_btns p)[j := (small_btns p ! j)\<lparr>sb_text := ADDED_LABEL,
                 sb_background := ''#10b981'', sb_transform := ''scale(0.95)''\<rparr>]\<rparr>))"
  using assms by (simp add: cart_click_def drop_nth_Cons updateCartCount_def)

lemma cart_click_other: "j < length (small_btns p) \<Longrightarrow> sb_text (small_btns p ! j) \<noteq> ADD_LABEL \<Longrightarrow> cart_click j p = p"
  by (simp add: cart_click_def drop_nth_Cons)

lemma cart_click_out: "length (small_btns p) \<le> j \<Longrightarrow> cart_click j p = p"
  by (simp add: cart_click_def)

lemma group_select_one: "k < length bs \<Longrightarrow> length (filter gb_active (group_select k bs)) = 1"
proof -
  assume k: "k < length bs"
  have "{i. i < length (group_select k bs) \<and> gb_active (group_select k bs ! i)} = {k}"
    using k by (auto simp: group_select_def nth_map_at split: if_splits)
  then show ?thesis by (simp add: length_filter_conv_card)
qed

lemma library_click_cases:
  assumes "j < length (library p)"
  obtains "fst (library_click j p) = p"
  | m where "fst (library_click j p) = showNotification m p"
  | title where "lb_title (library p ! j) = Some title"
      "fst (library_click j p) = setTimeout 3000 (InstallDone j title)
         ((showNotification (''Instalando '' @ title @ ''...'') p)\<lparr>library := (library p)[j :=
            (library p ! j)\<lparr>lb_text := ''Instalando...'', lb_disabled := True\<rparr>]\<rparr>)"
proof (cases "lb_title (library p ! j)")
  case None
  then show ?thesis using assms that(1) by (simp add: library_click_def drop_nth_Cons)
next
  case (Some title)
  show ?thesis
  proof (cases "js_trim (lb_text (library p ! j)) = ''Jugar''")
    case True
    then show ?thesis
      using that(2) [of "''Iniciando '' @ title @ ''...''"] Some assms by (simp add: library_click_def drop_nth_Cons)
  next
    case False
    then show ?thesis
      using that(1) that(3) [of title] Some assms
      by (cases "js_trim (lb_text (library p ! j)) = ''Instalar''") (simp_all add: library_click_def drop_nth_Cons)
  qed
qed

subsection \<open>Navigation\<close>

text \<open>
  C20. A click on a navigation link whose \<open>data-page\<close> names an existing page
  succeeds: afterwards the active navigation links are exactly those (in both bars) with
  the same \<open>data-page\<close>, every other element of the document with that
  \<open>data-page\<close> is active too, the others keep their state, and exactly one page is
  active, the page with id \<open>pageId-page\<close>.
\<close>

theorem nav_click_selects:
  assumes "i < length (nav_links p)" and "in_nav (nav_links p ! i)" and "data_page (nav_links p ! i) = Some pid"
    and "list_ex (\<lambda>q. page_id q = pid @ ''-page'') (pages p)"
  shows "snd (nav_click i p) = None
     \<and> map link_active (nav_links (fst (nav_click i p)))
         = map (\<lambda>l. data_page l = Some pid \<or> (\<not> in_nav l \<and> link_active l)) (nav_links p)
     \<and> map page_id (pages (fst (nav_click i p))) = map page_id (pages p)
     \<and> length (filter page_active (pages (fst (nav_click i p)))) = 1
     \<and> list_all (\<lambda>q. page_active q \<longrightarrow> page_id q = pid @ ''-page'') (pages (fst (nav_click i p)))"
proof -
  let ?ps = "map (\<lambda>q. q\<lparr>page_active := False\<rparr>) (pages p)"
  from assms(1) have d: "drop i (nav_links p) = nav_links p ! i # drop (Suc i) (nav_links p)"
    by (simp add: Cons_nth_drop_Suc)
  from assms(4) obtain ps' where a: "activate_first (pid @ ''-page'') ?ps = Some ps'"
    by (cases "activate_first (pid @ ''-page'') ?ps") (auto simp: activate_first_None list_ex_iff)
  have "list_all (\<lambda>q. \<not> page_active q) ?ps" by (simp add: list_all_iff)
  from activate_first_Some [OF a this] have ps': "map page_id ps' = map page_id (pages p)"
    "length (filter page_active ps') = 1" "list_all (\<lambda>q. page_active q \<longrightarrow> page_id q = pid @ ''-page'') ps'"
    by (simp_all add: comp_def)
  show ?thesis
    using d a ps' assms(2,3) by (auto simp: nav_click_def js_string_of_def comp_def)
qed

theorem nav_click_selects_witness:
  "let P = page_load False [\<lparr>data_page = Some ''tienda'', link_active = False, in_nav = True\<rparr>,
             \<lparr>data_page = Some ''biblioteca'', link_active = True, in_nav = True\<rparr>,
             \<lparr>data_page = Some ''tienda'', link_active = False, in_nav = True\<rparr>,
             \<lparr>data_page = Some ''tienda'', link_active = False, in_nav = False\<rparr>,
             \<lparr>data_page = Some ''biblioteca'', link_active = True, in_nav = False\<rparr>]
           [\<lparr>page_id = ''biblioteca-page'', page_active = True\<rparr>,
            \<lparr>page_id = ''tienda-page'', page_active = False\<rparr>] 2 [] [] [] []
   in snd (nav_click 0 P) = None
      \<and> map link_active (nav_links (fst (nav_click 0 P))) = [True, False, True, True, True]
      \<and> length (filter page_active (pages (fst (nav_click 0 P)))) = 1"
  unfolding Let_def
  using nav_click_selects [of 0 "page_load False [\<lparr>data_page = Some ''tienda'', link_active = False, in_nav = True\<rparr>,
             \<lparr>data_page = Some ''biblioteca'', link_active = True, in_nav = True\<rparr>,
             \<lparr>data_page = Some ''tienda'', link_active = False, in_nav = True\<rparr>,
             \<lparr>data_page = Some ''tienda'', link_active = False, in_nav = False\<rparr>,
             \<lparr>data_page = Some ''biblioteca'', link_active = True, in_nav = False\<rparr>]
           [\<lparr>page_id = ''biblioteca-page'', page_active = True\<rparr>,
            \<lparr>page_id = ''tienda-page'', page_active = False\<rparr>] 2 [] [] [] []" "''tienda''"]
  by (simp add: page_load_def wco_initial_def)

text \<open>
  C21. A click on a navigation link whose page does not exist (a link without
  \<open>data-page\<close> looks up \<open>null-page\<close>) throws a \<open>TypeError\<close> after the handler
  has already hidden every page: the page is left blank.
\<close>

theorem nav_click_missing_page:
  assumes "i < length (nav_links p)" and "in_nav (nav_links p ! i)"
    and "\<not> list_ex (\<lambda>q. page_id q = js_string_of (data_page (nav_links p ! i)) @ ''-page'') (pages p)"
  shows "snd (nav_click i p) = Some NullElement \<and> \<not> list_ex page_active (pages (fst (nav_click i p)))"
proof -
  from assms(1) have "drop i (nav_links p) = nav_links p ! i # drop (Suc i) (nav_links p)"
    by (simp add: Cons_nth_drop_Suc)
  moreover from assms(3)
  have "activate_first (js_string_of (data_page (nav_links p ! i)) @ ''-page'')
          (map (\<lambda>q. q\<lparr>page_active := False\<rparr>) (pages p)) = None"
    by (simp add: activate_first_None list_ex_iff)
  ultimately show ?thesis
    using assms(2) by (simp add: nav_click_def list_ex_iff)
qed

theorem nav_click_missing_page_witness:
  "let P = page_load False [\<lparr>data_page = None, link_active = False, in_nav = True\<rparr>]
           [\<lparr>page_id = ''tienda-page'', page_active = True\<rparr>] 1 [] [] [] []
   in snd (nav_click 0 P) = Some NullElement \<and> \<not> list_ex page_active (pages (fst (nav_click 0 P)))"
  unfolding Let_def
  using nav_click_missing_page [of 0 "page_load False [\<lparr>data_page = None, link_active = False, in_nav = True\<rparr>]
           [\<lparr>page_id = ''tienda-page'', page_active = True\<rparr>] 1 [] [] [] []"]
  by (simp add: page_load_def wco_initial_def js_string_of_def)

subsection \<open>Cart, groups, library\<close>

text \<open>
  C22. A click on an \<open>Anadir al Carrito\<close> button increments the counter, shows the new
  count in every \<open>.cart-count\<close> element, relabels that button \<open>(check) Agregado\<close>
  and shows the toast \<open>Juego agregado al carrito\<close>; a second click on the same button
  changes nothing, so a button adds its game at most once.
\<close>

theorem cart_click_adds_once:
  assumes "j < length (small_btns p)" and "sb_text (small_btns p ! j) = ADD_LABEL"
  shows "cartCount (cart_click j p) = Suc (cartCount p)
     \<and> cart_shown (cart_click j p) = map (\<lambda>_. Suc (cartCount p)) (cart_shown p)
     \<and> map sb_text (small_btns (cart_click j p)) = (map sb_text (small_btns p))[j := ADDED_LABEL]
     \<and> map t_msg (toasts (cart_click j p)) = map t_msg (toasts p) @ [''Juego agregado al carrito'']
     \<and> cart_click j (cart_click j p) = cart_click j p"
proof -
  have t: "map t_msg (toasts (cart_click j p)) = map t_msg (toasts p) @ [''Juego agregado al carrito'']"
    using assms by (simp add: cart_click_def drop_nth_Cons updateCartCount_def setTimeout_def showNotification_toasts)
  have "small_btns (cart_click j p) ! j = (small_btns p ! j)\<lparr>sb_text := ADDED_LABEL,
          sb_background := ''#10b981'', sb_transform := ''scale(0.95)''\<rparr>"
    using assms by (simp add: cart_click_step setTimeout_def)
  then have "cart_click j (cart_click j p) = cart_click j p"
    using assms by (intro cart_click_other) (simp_all add: cart_click_step setTimeout_def)
  then show ?thesis
    using assms t by (simp add: cart_click_step setTimeout_def map_update)
qed

theorem cart_click_adds_once_witness:
  "let P = page_load False [] [] 2 [\<lparr>sb_text = ADD_LABEL, sb_background = ''#333'', sb_transform = ''none''\<rparr>] [] [] []
   in cartCount (cart_click 0 P) = 1 \<and> cart_shown (cart_click 0 P) = [1, 1]
      \<and> cart_click 0 (cart_click 0 P) = cart_click 0 P"
  unfolding Let_def
  using cart_click_adds_once [of 0 "page_load False [] [] 2 [\<lparr>sb_text = ADD_LABEL, sb_background = ''#333'',
      sb_transform = ''none''\<rparr>] [] [] []"]
  by (simp add: page_load_def wco_initial_def numeral_2_eq_2)

text \<open>
  C23. A click on filter button \<open>k\<close> leaves exactly that filter button active and
  announces its label; the same holds for tab button \<open>k'\<close> of the community tabs.
\<close>

theorem group_click_selects_one:
  assumes "k < length (filter_btns p)" and "k' < length (tab_btns p)"
  shows "map gb_active (filter_btns (filter_click k p)) = map (\<lambda>i. i = k) [0..<length (filter_btns p)]
     \<and> map t_msg (toasts (filter_click k p)) = map t_msg (toasts p) @ [''Filtro aplicado: '' @ gb_text (filter_btns p ! k)]
     \<and> map gb_active (tab_btns (tab_click k' p)) = map (\<lambda>i. i = k') [0..<length (tab_btns p)]
     \<and> map t_msg (toasts (tab_click k' p)) = map t_msg (toasts p) @ [''Mostrando: '' @ gb_text (tab_btns p ! k')]"
  using assms
  by (simp add: filter_click_def tab_click_def drop_nth_Cons group_select_active showNotification_toasts)

theorem group_click_selects_one_witness:
  "let P = page_load False [] [] 0 []
             [\<lparr>gb_text = ''Todos'', gb_active = True\<rparr>, \<lparr>gb_text = ''Instalados'', gb_active = False\<rparr>]
             [\<lparr>gb_text = ''Foros'', gb_active = True\<rparr>] []
   in map gb_active (filter_btns (filter_click 1 P)) = [False, True]
      \<and> map gb_active (tab_btns (tab_click 0 P)) = [True]"
  unfolding Let_def
  using group_click_selects_one [of 1 "page_load False [] [] 0 []
             [\<lparr>gb_text = ''Todos'', gb_active = True\<rparr>, \<lparr>gb_text = ''Instalados'', gb_active = False\<rparr>]
             [\<lparr>gb_text = ''Foros'', gb_active = True\<rparr>] []" 0]
  by (simp add: page_load_def wco_initial_def upt_conv_Cons)

text \<open>
  C24. A library button labelled \<open>Instalar\<close> (up to surrounding white space) goes
  through the simulated installation: the click announces it, relabels the button
  \<open>Instalando...\<close>, disables it and sets one 3000 ms timer; when that timer fires the
  button reads \<open>Jugar\<close>, is enabled and primary, and a further click starts the game.
\<close>

theorem library_install_cycle:
  assumes "j < length (library p)" and "js_trim (lb_text (library p ! j)) = ''Instalar''"
    and "lb_title (library p ! j) = Some title"
  shows "snd (library_click j p) = None
     \<and> lb_text (library (fst (library_click j p)) ! j) = ''Instalando...''
     \<and> lb_disabled (library (fst (library_click j p)) ! j)
     \<and> ptimers (fst (library_click j p))
         = ptimers p @ [(now p + 3000, ToastOut (length (toasts p))), (now p + 3000, InstallDone j title)]
     \<and> (let q = run_task (InstallDone j title) (fst (library_click j p))
        in lb_text (library q ! j) = ''Jugar'' \<and> \<not> lb_disabled (library q ! j) \<and> lb_primary (library q ! j)
           \<and> snd (library_click j q) = None
           \<and> map t_msg (toasts (fst (library_click j q))) = map t_msg (toasts q) @ [''Iniciando '' @ title @ ''...''])"
proof -
  have t: "js_trim ''Jugar'' = ''Jugar''" by (simp add: js_trim_def js_whitespace_def)
  have ne: "js_trim (lb_text (library p ! j)) \<noteq> ''Jugar''" using assms(2) by simp
  show ?thesis
    using assms(1,3) ne t
    by (simp add: library_click_def drop_nth_Cons assms(2) showNotification_toasts setTimeout_def
        nth_map_at Let_def)
qed

theorem library_install_cycle_witness:
  "let P = page_load False [] [] 0 [] [] []
             [\<lparr>lb_text = '' Instalar '', lb_title = Some ''Hollow Knight'', lb_disabled = False, lb_primary = False\<rparr>];
       Q = run_task (InstallDone 0 ''Hollow Knight'') (fst (library_click 0 P))
   in lb_disabled (library (fst (library_click 0 P)) ! 0) \<and> lb_text (library Q ! 0) = ''Jugar''
      \<and> \<not> lb_disabled (library Q ! 0)"
  unfolding Let_def
  using library_install_cycle [of 0 "page_load False [] [] 0 [] [] []
             [\<lparr>lb_text = '' Instalar '', lb_title = Some ''Hollow Knight'', lb_disabled = False,
               lb_primary = False\<rparr>]" "''Hollow Knight''"]
  by (simp add: page_load_def wco_initial_def js_trim_def js_whitespace_def Let_def)

text \<open>
  C25. The handlers that read an element that is not there throw a \<open>TypeError\<close>
  before changing anything: a switch without a \<open>span\<close> label, a news card without a
  heading, a library card without a heading. The page is unchanged and no toast appears.
\<close>

theorem missing_element_throws:
  "on_switch_change None c p = (p, Some NullElement)
   \<and> on_news_click None p = (p, Some NullElement)
   \<and> (j < length (library p) \<longrightarrow> lb_title (library p ! j) = None \<longrightarrow> library_click j p = (p, Some NullElement))"
  by (simp add: on_switch_change_def on_news_click_def library_click_def drop_nth_Cons)

theorem missing_element_throws_witness:
  "let P = page_load False [] [] 0 [] [] []
             [\<lparr>lb_text = ''Jugar'', lb_title = None, lb_disabled = False, lb_primary = True\<rparr>]
   in library_click 0 P = (P, Some NullElement)"
  unfolding Let_def
  using missing_element_throws [where j = 0 and p = "page_load False [] [] 0 [] [] []
             [\<lparr>lb_text = ''Jugar'', lb_title = None, lb_disabled = False, lb_primary = True\<rparr>]"]
  by (simp add: page_load_def wco_initial_def)

end
