(* ===== verification/PageEvents.thy ===== *)
theory PageEvents
  imports Page "HOL-Library.While_Combinator"
begin

text \<open>
  The page as an event-driven system. \<open>page_step\<close> dispatches one event of the browser to
  the listener \<open>app.js\<close> registered for it: a user action on an element that exists,
  the answer of \<open>userChoice\<close>, a window event, a timer callback (\<open>Fire\<close>: the earliest
  due timer, first queued first on ties) or the passing of time (\<open>Advance\<close>).
  \<open>page_reachable\<close> is the closure from a freshly loaded page (its invariants are in
  \<open>PageInvariants\<close>). Without user input the browser runs the pending timers to
  quiescence: \<open>drain\<close> as a recursive function, \<open>settle\<close> as a \<open>while_option\<close>
  loop, proved to terminate and to agree. The last section holds sequences of events that
  expose the install prompt's defects.
\<close>

datatype page_event =
    NavClick nat | CartClick nat | SearchClick "string option" | FilterClick nat | TabClick nat
  | ProfileSubmit | SwitchChange "string option" bool | LibraryClick nat | TrailerClick | BuyClick
  | NewsClick "string option" | BeforeInstallPrompt nat | InstallClick nat | UserChoice nat bool
  | AppInstalled | Online | Offline | Fire | Advance nat

text \<open>The index of the first timer with the smallest due time.\<close>

fun earliest_idx :: "(nat \<times> ptask) list \<Rightarrow> nat option" where
  "earliest_idx [] = None"
| "earliest_idx (x # xs) =
     (case earliest_idx xs of
        None \<Rightarrow> Some 0
      | Some j \<Rightarrow> if fst (xs ! j) < fst x then Some (Suc j) else Some 0)"

definition fire :: "page \<Rightarrow> page option" where
  "fire p =
     (case earliest_idx (ptimers p) of
        None \<Rightarrow> None
      | Some i \<Rightarrow>
          (case ptimers p ! i of
             (due, task) \<Rightarrow>
               if due \<le> now p
               then Some (run_task task (p\<lparr>ptimers := take i (ptimers p) @ drop (Suc i) (ptimers p)\<rparr>))
               else None))"

text \<open>
  A disabled button receives no click, and a removed install button none either; an
  exception thrown by a listener keeps the DOM changes made before it.
\<close>

fun page_step :: "page \<Rightarrow> page_event \<Rightarrow> page option" where
  "page_step p (NavClick i) = (if i < length (nav_links p) then Some (fst (nav_click i p)) else None)"
| "page_step p (CartClick j) = (if j < length (small_btns p) then Some (cart_click j p) else None)"
| "page_step p (SearchClick a) = Some (on_search a p)"
| "page_step p (FilterClick k) = (if k < length (filter_btns p) then Some (filter_click k p) else None)"
| "page_step p (TabClick k) = (if k < length (tab_btns p) then Some (tab_click k p) else None)"
| "page_step p ProfileSubmit = Some (on_profile_submit p)"
| "page_step p (SwitchChange st c) = Some (fst (on_switch_change st c p))"
| "page_step p (LibraryClick j) =
     (if j < length (library p) \<and> \<not> lb_disabled (library p ! j) then Some (fst (library_click j p)) else None)"
| "page_step p TrailerClick = Some (on_trailer_click p)"
| "page_step p BuyClick = Some (on_buy_click p)"
| "page_step p (NewsClick t) = Some (fst (on_news_click t p))"
| "page_step p (BeforeInstallPrompt e) = Some (on_beforeinstallprompt e p)"
| "page_step p (InstallClick k) =
     (if k < length (install_btns p) \<and> install_btns p ! k then Some (install_click k p) else None)"
| "page_step p (UserChoice e acc) =
     (if list_ex (\<lambda>(_, e'). e' = e) (awaiting p) then Some (user_choice e acc p) else None)"
| "page_step p AppInstalled = Some (on_appinstalled p)"
| "page_step p Online = Some (on_online p)"
| "page_step p Offline = Some (on_offline p)"
| "page_step p Fire = fire p"
| "page_step p (Advance t) = (if now p < t then Some (p\<lparr>now := t\<rparr>) else None)"

fun page_run :: "page \<Rightarrow> page_event list \<Rightarrow> page option" where
  "page_run p [] = Some p"
| "page_run p (e # es) = (case page_step p e of None \<Rightarrow> None | Some p' \<Rightarrow> page_run p' es)"

text \<open>
  A freshly loaded page: no button already reads \<open>(check) Agregado\<close>, at most one
  filter and one tab are active, and no library button is disabled.
\<close>

definition load_ok :: "small_btn list \<Rightarrow> group_btn list \<Rightarrow> group_btn list \<Rightarrow> lib_btn list \<Rightarrow> bool" where
  "load_ok sbs fbs tbs lib \<longleftrightarrow>
     list_all (\<lambda>b. sb_text b \<noteq> ADDED_LABEL) sbs \<and> length (filter gb_active fbs) \<le> 1
     \<and> length (filter gb_active tbs) \<le> 1 \<and> list_all (\<lambda>b. \<not> lb_disabled b) lib"

inductive page_reachable :: "page \<Rightarrow> bool" where
  load: "load_ok sbs fbs tbs lib \<Longrightarrow> page_reachable (page_load wco ls ps n sbs fbs tbs lib)"
| step: "page_reachable p \<Longrightarrow> page_step p e = Some p' \<Longrightarrow> page_reachable p'"

subsection \<open>The event loop without user input\<close>

text \<open>
  With no further user action the browser runs the pending timers, earliest first,
  letting time pass up to each due time. Each callback queues fewer timers than it
  consumes, counted by \<open>task_weight\<close>, so this ends.
\<close>

fun task_weight :: "ptask \<Rightarrow> nat" where
  "task_weight (InstallDone _ _) = 3"
| "task_weight (ToastOut _) = 2"
| "task_weight (ToastRemove _) = 1"
| "task_weight (ScaleBack _) = 1"

definition timers_weight :: "(nat \<times> ptask) list \<Rightarrow> nat" where
  "timers_weight ts = sum_list (map (task_weight \<circ> snd) ts)"

fun is_timer_event :: "page_event \<Rightarrow> bool" where
  "is_timer_event Fire = True"
| "is_timer_event (Advance _) = True"
| "is_timer_event _ = False"

function drain :: "page \<Rightarrow> page" where
  "drain p =
     (case earliest_idx (ptimers p) of
        None \<Rightarrow> p
      | Some i \<Rightarrow>
          (case ptimers p ! i of
             (due, task) \<Rightarrow>
               drain (run_task task (p\<lparr>now := max (now p) due,
                                        ptimers := take i (ptimers p) @ drop (Suc i) (ptimers p)\<rparr>))))"
  by pat_completeness auto
termination
proof (relation "measure (\<lambda>p. timers_weight (ptimers p))", goal_cases)
  case 1
  then show ?case by simp
next
  case (2 p i due task)
  have run: "timers_weight (ptimers (run_task task q)) < timers_weight (ptimers q) + task_weight task" for q
    by (cases task) (simp_all add: timers_weight_def setTimeout_def showNotification_def)
  have bound: "\<forall>i. earliest_idx ts = Some i \<longrightarrow> i < length ts" for ts :: "(nat \<times> ptask) list"
    by (induction ts) (auto split: option.splits if_splits)
  have "i < length (ptimers p)" using bound 2 by blast
  then have "ptimers p = take i (ptimers p) @ (due, task) # drop (Suc i) (ptimers p)"
    using 2 by (metis id_take_nth_drop)
  then have "timers_weight (ptimers p) = timers_weight (take i (ptimers p) @ (due, task) # drop (Suc i) (ptimers p))"
    by (rule arg_cong)
  also have "\<dots> = timers_weight (take i (ptimers p) @ drop (Suc i) (ptimers p)) + task_weight task"
    by (simp add: timers_weight_def)
  finally have "timers_weight (ptimers p)
      = timers_weight (take i (ptimers p) @ drop (Suc i) (ptimers p)) + task_weight task" .
  then show ?case using 2 run [of "p\<lparr>now := max (now p) due, ptimers := take i (ptimers p) @ drop (Suc i) (ptimers p)\<rparr>"]
    by simp
qed

text \<open>
  The same loop as the browser runs it, one callback at a time: \<open>fire_next\<close> lets time
  pass to the earliest due timer and runs it; \<open>settle\<close> repeats it while a timer is pending.
\<close>

definition fire_next :: "page \<Rightarrow> page" where
  "fire_next p =
     (case earliest_idx (ptimers p) of
        None \<Rightarrow> p
      | Some i \<Rightarrow>
          (case ptimers p ! i of
             (due, task) \<Rightarrow>
               run_task task (p\<lparr>now := max (now p) due,
                                ptimers := take i (ptimers p) @ drop (Suc i) (ptimers p)\<rparr>)))"

definition settle :: "page \<Rightarrow> page option" where
  "settle p = while_option (\<lambda>q. ptimers q \<noteq> []) fire_next p"

subsection \<open>Timers and the event loop\<close>

lemma page_step_CartClickE:
  assumes "page_step p (CartClick j) = Some q"
  obtains "j < length (small_btns p)" and "q = cart_click j p"
  using assms by (simp split: if_splits)

lemma page_step_LibraryClickE:
  assumes "page_step p (LibraryClick j) = Some q"
  obtains "j < length (library p)" and "\<not> lb_disabled (library p ! j)" and "q = fst (library_click j p)"
  using assms by (simp split: if_splits)

lemma earliest_idx_None [simp]: "earliest_idx ts = None \<longleftrightarrow> ts = []"
  by (cases ts) (auto split: option.splits)

lemma earliest_idx_Some:
  "earliest_idx ts = Some i \<Longrightarrow> i < length ts \<and> list_all (\<lambda>x. fst (ts ! i) \<le> fst x) ts"
proof (induction ts arbitrary: i)
  case Nil
  then show ?case by simp
next
  case (Cons x xs)
  show ?case
  proof (cases "earliest_idx xs")
    case None
    then show ?thesis using Cons.prems by (simp add: list_all_iff)
  next
    case (Some j)
    with Cons.IH have "j < length xs" "list_all (\<lambda>y. fst (xs ! j) \<le> fst y) xs" by auto
    then show ?thesis using Cons.prems Some by (auto simp: list_all_iff split: if_splits)
  qed
qed

lemma fire_SomeD:
  assumes "fire p = Some q"
  shows "\<exists>xs d task ys. ptimers p = xs @ (d, task) # ys \<and> d \<le> now p
           \<and> list_all (\<lambda>x. d \<le> fst x) (ptimers p) \<and> q = run_task task (p\<lparr>ptimers := xs @ ys\<rparr>)"
proof -
  obtain i where i: "earliest_idx (ptimers p) = Some i"
    using assms by (cases "earliest_idx (ptimers p)") (simp_all add: fire_def)
  obtain d task where dt: "ptimers p ! i = (d, task)" by (cases "ptimers p ! i")
  from earliest_idx_Some [OF i] have "i < length (ptimers p)" "list_all (\<lambda>x. d \<le> fst x) (ptimers p)"
    by (simp_all add: dt)
  moreover from this have "ptimers p = take i (ptimers p) @ (d, task) # drop (Suc i) (ptimers p)"
    by (metis dt id_take_nth_drop)
  moreover have "d \<le> now p \<and> q = run_task task (p\<lparr>ptimers := take i (ptimers p) @ drop (Suc i) (ptimers p)\<rparr>)"
    using assms by (simp add: fire_def i dt split: if_splits)
  ultimately show ?thesis by blast
qed

lemma fold_resume_preserve:
  assumes "\<And>k q. P q \<Longrightarrow> P (resume_install k acc q)" and "P q"
  shows "P (fold (\<lambda>(k, e') q. if e' = e then resume_install k acc q else q) aw q)"
  using assms(2)
proof (induction aw arbitrary: q)
  case Nil
  then show ?case by simp
next
  case (Cons x aw)
  then show ?case by (cases x) (simp add: assms(1))
qed

lemma user_choice_preserve:
  assumes "\<And>k q. P q \<Longrightarrow> P (resume_install k acc q)"
    and "P (p\<lparr>awaiting := filter (\<lambda>(_, e'). e' \<noteq> e) (awaiting p)\<rparr>)"
  shows "P (user_choice e acc p)"
  unfolding user_choice_def by (rule fold_resume_preserve [OF assms])

lemma user_choice_fields [simp]:
  "cartCount (user_choice e acc p) = cartCount p" "cart_shown (user_choice e acc p) = cart_shown p"
  "small_btns (user_choice e acc p) = small_btns p" "filter_btns (user_choice e acc p) = filter_btns p"
  "tab_btns (user_choice e acc p) = tab_btns p" "library (user_choice e acc p) = library p"
  by (rule user_choice_preserve [where P = "\<lambda>q. _ q = _ p"]; simp add: resume_install_def)+

lemma run_task_fields [simp]:
  "cartCount (run_task x p) = cartCount p" "cart_shown (run_task x p) = cart_shown p"
  "filter_btns (run_task x p) = filter_btns p" "tab_btns (run_task x p) = tab_btns p"
  "now (run_task x p) = now p" "map sb_text (small_btns (run_task x p)) = map sb_text (small_btns p)"
  by (cases x; simp add: setTimeout_def map_at_def map_update list_eq_iff_nth_eq nth_list_update)+

subsection \<open>Runs\<close>

lemma page_reachable_run: "page_reachable p \<Longrightarrow> page_run p es = Some q \<Longrightarrow> page_reachable q"
proof (induction es arbitrary: p)
  case Nil
  then show ?case by simp
next
  case (Cons e es)
  then show ?case by (auto split: option.splits intro: page_reachable.step)
qed

lemma page_reachable_load_run:
  "load_ok sbs fbs tbs lib \<Longrightarrow> page_run (page_load wco ls ps n sbs fbs tbs lib) es = Some q \<Longrightarrow> page_reachable q"
  by (rule page_reachable_run [OF page_reachable.load])

lemmas page_eval_simps = page_load_def wco_initial_def load_ok_def cart_click_def updateCartCount_def
  filter_click_def tab_click_def group_select_def map_at_def library_click_def fire_def
  showNotification_def setTimeout_def js_trim_def js_whitespace_def

subsection \<open>Timers settle\<close>

declare drain.simps [simp del]

lemma page_run_append:
  "page_run p (es @ es') = (case page_run p es of None \<Rightarrow> None | Some q \<Rightarrow> page_run q es')"
  by (induction es arbitrary: p) (auto split: option.splits)

lemma drain_run: "\<exists>es. list_all is_timer_event es \<and> page_run p es = Some (drain p)"
proof (induction p rule: drain.induct)
  case (1 p)
  show ?case
  proof (cases "earliest_idx (ptimers p)")
    case None
    then show ?thesis by (intro exI [of _ "[]"]) (simp add: drain.simps)
  next
    case (Some i)
    obtain due task where dt: "ptimers p ! i = (due, task)" by (cases "ptimers p ! i")
    let ?p1 = "p\<lparr>now := max (now p) due\<rparr>"
    let ?q = "run_task task (?p1\<lparr>ptimers := take i (ptimers p) @ drop (Suc i) (ptimers p)\<rparr>)"
    from "1" Some dt obtain es where es: "list_all is_timer_event es" "page_run ?q es = Some (drain ?q)"
      by fastforce
    have fire: "fire ?p1 = Some ?q" using Some dt by (simp add: fire_def)
    have drain: "drain p = drain ?q" using Some dt by (simp add: drain.simps)
    show ?thesis
    proof (cases "now p < due")
      case True
      then have m: "max (now p) due = due" by simp
      show ?thesis using True fire es drain
        by (intro exI [of _ "[Advance due, Fire] @ es"]) (simp add: page_run_append m)
    next
      case False
      then have "?p1 = p" by simp
      then show ?thesis using fire es drain
        by (intro exI [of _ "[Fire] @ es"]) (simp add: page_run_append)
    qed
  qed
qed

lemma drain_timers: "ptimers (drain p) = []"
proof (induction p rule: drain.induct)
  case (1 p)
  then show ?case
    by (cases "earliest_idx (ptimers p)") (auto simp: drain.simps [of p] split: prod.splits)
qed

lemma earliest_idx_less: "earliest_idx ts = Some i \<Longrightarrow> i < length ts"
  using earliest_idx_Some by blast

lemma run_task_weight:
  "timers_weight (ptimers (run_task task q)) < timers_weight (ptimers q) + task_weight task"
  by (cases task) (simp_all add: timers_weight_def setTimeout_def showNotification_def)

lemma fire_next_weight:
  assumes "ptimers p \<noteq> []"
  shows "timers_weight (ptimers (fire_next p)) < timers_weight (ptimers p)"
proof -
  obtain i where i: "earliest_idx (ptimers p) = Some i" using assms by (cases "earliest_idx (ptimers p)") auto
  obtain due task where dt: "ptimers p ! i = (due, task)" by (cases "ptimers p ! i")
  have "ptimers p = take i (ptimers p) @ (due, task) # drop (Suc i) (ptimers p)"
    using earliest_idx_less [OF i] dt by (metis id_take_nth_drop)
  then have "timers_weight (ptimers p) = timers_weight (take i (ptimers p) @ (due, task) # drop (Suc i) (ptimers p))"
    by (rule arg_cong)
  also have "\<dots> = timers_weight (take i (ptimers p) @ drop (Suc i) (ptimers p)) + task_weight task"
    by (simp add: timers_weight_def)
  finally show ?thesis
    using run_task_weight [of task "p\<lparr>now := max (now p) due, ptimers := take i (ptimers p) @ drop (Suc i) (ptimers p)\<rparr>"]
    by (simp add: fire_next_def i dt)
qed

lemma drain_fire_next: "drain p = (if ptimers p = [] then p else drain (fire_next p))"
  by (cases "earliest_idx (ptimers p)") (auto simp: drain.simps [of p] fire_next_def split: prod.splits)

text \<open>
  C35. The event loop terminates: from any page, running the pending timers one at a time,
  earliest first, ends after finitely many callbacks, with no timer left, in the page
  \<open>drain\<close> computes.
\<close>

theorem settle_terminates: "\<exists>q. settle p = Some q \<and> q = drain p \<and> ptimers q = []"
proof -
  obtain q where q: "while_option (\<lambda>q. ptimers q \<noteq> []) fire_next p = Some q"
    using measure_while_option_Some [where P = "\<lambda>_. True" and f = "\<lambda>q. timers_weight (ptimers q)"
        and b = "\<lambda>q. ptimers q \<noteq> []" and c = fire_next and s = p]
      fire_next_weight by blast
  have step: "drain (fire_next s) = drain p" if "drain s = drain p" and "ptimers s \<noteq> []" for s
    using that drain_fire_next [of s] by simp
  have "drain q = drain p"
    by (rule while_option_rule [where P = "\<lambda>s. drain s = drain p", OF step q]) simp_all
  moreover have "ptimers q = []" using while_option_stop [OF q] by simp
  ultimately show ?thesis using q by (simp add: settle_def drain_fire_next [of q])
qed

subsection \<open>The install prompt\<close>

text \<open>
  C31. A prompt event that arrives while an install button waits for the user's choice is
  lost: when the earlier choice resolves, the handler clears \<open>deferredPrompt\<close>
  unconditionally, so the new event is dropped and its own install button, still on the
  page, does nothing when clicked.
\<close>

theorem install_prompt_lost:
  assumes "deferredPrompt p = None" and "awaiting p = []"
  shows "let k = length (install_btns p);
             q = the (page_run p [BeforeInstallPrompt e1, InstallClick k, BeforeInstallPrompt e2, UserChoice e1 acc])
         in page_run p [BeforeInstallPrompt e1, InstallClick k, BeforeInstallPrompt e2, UserChoice e1 acc] \<noteq> None
            \<and> deferredPrompt q = None \<and> Suc k < length (install_btns q) \<and> install_btns q ! Suc k
            \<and> page_step q (InstallClick (Suc k)) = Some q"
  using assms
  by (simp add: Let_def on_beforeinstallprompt_def install_click_def user_choice_def resume_install_def
      showNotification_def setTimeout_def nth_append)

theorem install_prompt_lost_witness:
  "let P = page_load False [] [] 0 [] [] [] [];
       q = the (page_run P [BeforeInstallPrompt 1, InstallClick 0, BeforeInstallPrompt 2, UserChoice 1 False])
   in deferredPrompt q = None \<and> install_btns q = [False, True] \<and> page_step q (InstallClick 1) = Some q"
  using install_prompt_lost [of "page_load False [] [] 0 [] [] [] []" 1 2 False]
  by (simp add: Let_def page_load_def wco_initial_def on_beforeinstallprompt_def install_click_def
      user_choice_def resume_install_def)

text \<open>
  C32. After \<open>appinstalled\<close> the saved prompt is cleared but the custom install buttons
  stay on the page: a click on one of them does nothing.
\<close>

theorem appinstalled_leaves_inert_button:
  assumes "k < length (install_btns p)" and "install_btns p ! k"
  shows "install_btns (on_appinstalled p) = install_btns p
       \<and> page_step (on_appinstalled p) (InstallClick k) = Some (on_appinstalled p)"
  using assms by (simp add: install_click_def on_appinstalled_def)

theorem appinstalled_leaves_inert_button_witness:
  "let P = on_beforeinstallprompt 7 (page_load False [] [] 0 [] [] [] [])
   in install_btns P = [True] \<and> install_btns (on_appinstalled P) = install_btns P
      \<and> page_step (on_appinstalled P) (InstallClick 0) = Some (on_appinstalled P)"
proof -
  let ?P = "on_beforeinstallprompt 7 (page_load False [] [] 0 [] [] [] [])"
  have b: "install_btns ?P = [True]"
    by (simp add: page_load_def wco_initial_def on_beforeinstallprompt_def)
  have "install_btns (on_appinstalled ?P) = install_btns ?P
      \<and> page_step (on_appinstalled ?P) (InstallClick 0) = Some (on_appinstalled ?P)"
    by (rule appinstalled_leaves_inert_button) (simp_all add: b)
  then show ?thesis using b by (simp only: Let_def)
qed

end
