(* ===== verification/PageInvariants.thy ===== *)
theory PageInvariants
  imports PageEvents
begin

text \<open>
  Invariants of the reachable pages of \<open>PageEvents\<close>: the cart counter counts the added
  games (\<open>cart_inv\<close>), at most one filter and one tab is active (\<open>group_inv\<close>), a
  library button is disabled exactly while its installation timer is pending
  (\<open>lib_inv\<close>), each toast goes through its slide-in, slide-out and removal at the times
  \<open>showNotification\<close> sets (\<open>toast_inv\<close>). Each is preserved by every event; together with
  \<open>drain\<close> they give that the page settles with every toast removed.
\<close>

subsection \<open>Invariants\<close>

definition cart_inv :: "page \<Rightarrow> bool" where
  "cart_inv p \<longleftrightarrow> cartCount p = count_list (map sb_text (small_btns p)) ADDED_LABEL
                   \<and> list_all (\<lambda>n. n = cartCount p) (cart_shown p)"

definition group_inv :: "page \<Rightarrow> bool" where
  "group_inv p \<longleftrightarrow> length (filter gb_active (filter_btns p)) \<le> 1 \<and> length (filter gb_active (tab_btns p)) \<le> 1"

fun install_of :: "nat \<Rightarrow> ptask \<Rightarrow> bool" where
  "install_of j (InstallDone j' _) = (j' = j)"
| "install_of j _ = False"

fun install_below :: "nat \<Rightarrow> ptask \<Rightarrow> bool" where
  "install_below n (InstallDone j _) = (j < n)"
| "install_below n _ = True"

definition install_timers :: "nat \<Rightarrow> (nat \<times> ptask) list \<Rightarrow> nat" where
  "install_timers j ts = length (filter (\<lambda>(_, t). install_of j t) ts)"

definition lib_inv :: "page \<Rightarrow> bool" where
  "lib_inv p \<longleftrightarrow>
     (\<forall>j < length (library p). install_timers j (ptimers p) = (if lb_disabled (library p ! j) then 1 else 0))
     \<and> list_all (\<lambda>(_, t). install_below (length (library p)) t) (ptimers p)"

fun toast_below :: "nat \<Rightarrow> ptask \<Rightarrow> bool" where
  "toast_below n (ToastOut k) = (k < n)"
| "toast_below n (ToastRemove k) = (k < n)"
| "toast_below n _ = True"

definition task_count :: "ptask \<Rightarrow> (nat \<times> ptask) list \<Rightarrow> nat" where
  "task_count x ts = length (filter (\<lambda>(_, t). t = x) ts)"

text \<open>
  The life of toast \<open>k\<close> created at \<open>t_created\<close>: sliding in with one pending
  \<open>ToastOut k\<close> due 3000 ms after creation; sliding out, at least 3000 ms after creation,
  with one pending \<open>ToastRemove k\<close> due at least 3300 ms after creation; removed, at least
  3300 ms after creation, with no timer left.
\<close>

definition toast_ok :: "nat \<Rightarrow> (nat \<times> ptask) list \<Rightarrow> nat \<Rightarrow> toast \<Rightarrow> bool" where
  "toast_ok clk ts k t \<longleftrightarrow> t_created t \<le> clk \<and>
     (if t_attached t then
        (if t_anim t = SlideIn
         then task_count (ToastOut k) ts = 1 \<and> task_count (ToastRemove k) ts = 0
              \<and> list_all (\<lambda>(d, x). x = ToastOut k \<longrightarrow> d = t_created t + 3000) ts
         else t_created t + 3000 \<le> clk \<and> task_count (ToastOut k) ts = 0 \<and> task_count (ToastRemove k) ts = 1
              \<and> list_all (\<lambda>(d, x). x = ToastRemove k \<longrightarrow> t_created t + 3300 \<le> d) ts)
      else t_anim t = SlideOut \<and> t_created t + 3300 \<le> clk
           \<and> task_count (ToastOut k) ts = 0 \<and> task_count (ToastRemove k) ts = 0)"

definition toasts_ok :: "nat \<Rightarrow> toast list \<Rightarrow> (nat \<times> ptask) list \<Rightarrow> bool" where
  "toasts_ok clk tss ts \<longleftrightarrow>
     (\<forall>k < length tss. toast_ok clk ts k (tss ! k)) \<and> list_all (\<lambda>(_, x). toast_below (length tss) x) ts"

definition toast_inv :: "page \<Rightarrow> bool" where
  "toast_inv p \<longleftrightarrow> toasts_ok (now p) (toasts p) (ptimers p)"

definition page_inv :: "page \<Rightarrow> bool" where
  "page_inv p \<longleftrightarrow> cart_inv p \<and> group_inv p \<and> lib_inv p \<and> toast_inv p"

subsection \<open>Cart and groups\<close>

lemma cart_inv_step: "cart_inv p \<Longrightarrow> page_step p e = Some q \<Longrightarrow> cart_inv q"
proof (cases e)
  case (CartClick j)
  assume inv: "cart_inv p" and st: "page_step p e = Some q"
  obtain j: "j < length (small_btns p)" and q: "q = cart_click j p" by (rule page_step_CartClickE [OF st [unfolded CartClick]])
  show ?thesis
  proof (cases "sb_text (small_btns p ! j) = ADD_LABEL")
    case True
    have "count_list ((map sb_text (small_btns p))[j := ADDED_LABEL]) ADDED_LABEL
          = Suc (count_list (map sb_text (small_btns p)) ADDED_LABEL)"
      using count_list_update [of j "map sb_text (small_btns p)" ADDED_LABEL ADDED_LABEL] j True by simp
    then show ?thesis
      using inv j True by (simp add: q cart_inv_def cart_click_step setTimeout_def map_update list_all_iff)
  next
    case False
    then show ?thesis using inv j by (simp add: q cart_click_other)
  qed
next
  case Fire
  assume "cart_inv p" "page_step p e = Some q"
  then show ?thesis using Fire by (auto dest!: fire_SomeD simp: cart_inv_def)
qed (auto simp: cart_inv_def nav_click_def Let_def on_search_def filter_click_def tab_click_def
        on_profile_submit_def on_switch_change_def library_click_def setTimeout_def on_trailer_click_def
        on_buy_click_def on_news_click_def on_beforeinstallprompt_def install_click_def on_appinstalled_def
        on_online_def on_offline_def
      split: list.splits option.splits if_splits)

lemma group_inv_step: "group_inv p \<Longrightarrow> page_step p e = Some q \<Longrightarrow> group_inv q"
  by (cases e; auto dest!: fire_SomeD
      simp: group_inv_def group_select_one nav_click_def Let_def on_search_def filter_click_def tab_click_def
        on_profile_submit_def on_switch_change_def library_click_def setTimeout_def cart_click_def
        updateCartCount_def on_trailer_click_def on_buy_click_def on_news_click_def on_beforeinstallprompt_def
        install_click_def on_appinstalled_def on_online_def on_offline_def drop_nth_Cons
      split: list.splits option.splits if_splits)

subsection \<open>Library install buttons\<close>

lemma lib_inv_frame [simp]:
  "lib_inv (showNotification m p) = lib_inv p"
  "lib_inv (p\<lparr>awaiting := a\<rparr>) = lib_inv p" "lib_inv (p\<lparr>deferredPrompt := d\<rparr>) = lib_inv p"
  "lib_inv (p\<lparr>install_btns := b\<rparr>) = lib_inv p" "lib_inv (p\<lparr>now := t\<rparr>) = lib_inv p"
  by (simp_all add: lib_inv_def showNotification_toasts install_timers_def)

lemma lib_inv_library_click:
  assumes inv: "lib_inv p" and j: "j < length (library p)" and en: "\<not> lb_disabled (library p ! j)"
  shows "lib_inv (fst (library_click j p))"
  using j
proof (cases rule: library_click_cases)
  case 3
  from inv j en have "install_timers j (ptimers p) = 0" by (simp add: lib_inv_def)
  then show ?thesis
    using inv j 3(2) by (auto simp: lib_inv_def setTimeout_def install_timers_def nth_list_update showNotification_toasts)
qed (simp_all add: inv)

lemma lib_inv_run_other:
  "lib_inv p \<Longrightarrow> (\<And>j t. task \<noteq> InstallDone j t) \<Longrightarrow> lib_inv (run_task task p)"
  by (cases task) (auto simp: lib_inv_def install_timers_def setTimeout_def)

lemma lib_inv_fire:
  assumes inv: "lib_inv p" and ts: "ptimers p = xs @ (d, task) # ys"
  shows "lib_inv (run_task task (p\<lparr>ptimers := xs @ ys\<rparr>))"
proof (cases "\<exists>j t. task = InstallDone j t")
  case True
  then obtain j t where task: "task = InstallDone j t" by blast
  have below: "list_all (\<lambda>(_, x). install_below (length (library p)) x) (xs @ ys)"
    and j: "j < length (library p)"
    using inv ts task by (simp_all add: lib_inv_def)
  have cnt: "\<And>j'. install_timers j' (ptimers p) = install_timers j' (xs @ ys) + (if j' = j then 1 else 0)"
    using ts task by (simp add: install_timers_def)
  have old: "\<And>j'. j' < length (library p) \<Longrightarrow>
      install_timers j' (ptimers p) = (if lb_disabled (library p ! j') then 1 else 0)"
    using inv by (simp add: lib_inv_def)
  let ?p' = "p\<lparr>ptimers := xs @ ys, library := map_at j (\<lambda>b. b\<lparr>lb_text := ''Jugar'', lb_disabled := False,
               lb_primary := True\<rparr>) (library p)\<rparr>"
  have "lib_inv ?p'"
    unfolding lib_inv_def
  proof (intro conjI allI impI)
    fix j' assume "j' < length (library ?p')"
    then show "install_timers j' (ptimers ?p') = (if lb_disabled (library ?p' ! j') then 1 else 0)"
      using old [of j'] cnt [of j'] by (auto simp: nth_map_at split: if_splits)
  qed (use below in simp)
  then show ?thesis by (simp add: task)
next
  case False
  then have "lib_inv (p\<lparr>ptimers := xs @ ys\<rparr>)"
    using inv ts by (cases task) (auto simp: lib_inv_def install_timers_def)
  then show ?thesis using False lib_inv_run_other by blast
qed

lemma lib_inv_step: "lib_inv p \<Longrightarrow> page_step p e = Some q \<Longrightarrow> lib_inv q"
proof (cases e)
  case (LibraryClick j)
  assume inv: "lib_inv p" and st: "page_step p e = Some q"
  show ?thesis
    by (rule page_step_LibraryClickE [OF st [unfolded LibraryClick]]) (simp add: inv lib_inv_library_click)
next
  case Fire
  assume "lib_inv p" "page_step p e = Some q"
  then show ?thesis using Fire by (auto dest!: fire_SomeD intro: lib_inv_fire)
next
  case (UserChoice e' acc)
  assume "lib_inv p" "page_step p e = Some q"
  then show ?thesis using UserChoice
    by (auto intro: user_choice_preserve [where P = lib_inv] simp: resume_install_def split: if_splits)
qed (auto simp: lib_inv_def install_timers_def nav_click_def Let_def on_search_def filter_click_def tab_click_def
        on_profile_submit_def on_switch_change_def setTimeout_def cart_click_def updateCartCount_def
        on_trailer_click_def on_buy_click_def on_news_click_def on_beforeinstallprompt_def install_click_def
        on_appinstalled_def on_online_def on_offline_def showNotification_toasts
      split: list.splits option.splits if_splits)

subsection \<open>Toast lifetimes\<close>

lemma anim_not_SlideIn [simp]: "a \<noteq> SlideIn \<longleftrightarrow> a = SlideOut"
  by (cases a) simp_all

lemma task_count_0: "task_count x ts = 0 \<longleftrightarrow> list_all (\<lambda>(_, y). y \<noteq> x) ts"
  by (auto simp: task_count_def list_all_iff filter_empty_conv)

lemma toast_ok_other:
  "x \<noteq> ToastOut k \<Longrightarrow> x \<noteq> ToastRemove k \<Longrightarrow>
   toast_ok clk (xs @ (d, x) # ys) k t = toast_ok clk (xs @ ys) k t"
  by (simp add: toast_ok_def task_count_def)

lemma toast_ok_mono: "toast_ok clk ts k t \<Longrightarrow> clk \<le> clk' \<Longrightarrow> toast_ok clk' ts k t"
  by (auto simp: toast_ok_def split: if_splits)

lemma toasts_ok_mono: "toasts_ok clk tss ts \<Longrightarrow> clk \<le> clk' \<Longrightarrow> toasts_ok clk' tss ts"
  by (auto simp: toasts_ok_def intro: toast_ok_mono)

lemma toast_below_mono: "toast_below n x \<Longrightarrow> n \<le> m \<Longrightarrow> toast_below m x"
  by (cases x) auto

lemma toast_below_absent:
  "list_all (\<lambda>(_, x). toast_below n x) ts \<Longrightarrow> n \<le> k \<Longrightarrow>
   task_count (ToastOut k) ts = 0 \<and> task_count (ToastRemove k) ts = 0"
  by (auto simp: task_count_0 list_all_iff)

lemma toasts_ok_show:
  assumes ok: "toasts_ok clk tss ts"
  shows "toasts_ok clk (tss @ [\<lparr>t_msg = m, t_top = tp, t_created = clk, t_anim = SlideIn, t_attached = True\<rparr>])
           (ts @ [(clk + 3000, ToastOut (length tss))])"
  unfolding toasts_ok_def
proof (intro conjI allI impI)
  fix k assume k: "k < length (tss @ [\<lparr>t_msg = m, t_top = tp, t_created = clk, t_anim = SlideIn, t_attached = True\<rparr>])"
  have below: "list_all (\<lambda>(_, x). toast_below (length tss) x) ts" using ok by (simp add: toasts_ok_def)
  show "toast_ok clk (ts @ [(clk + 3000, ToastOut (length tss))]) k
          ((tss @ [\<lparr>t_msg = m, t_top = tp, t_created = clk, t_anim = SlideIn, t_attached = True\<rparr>]) ! k)"
  proof (cases "k < length tss")
    case True
    then show ?thesis
      using ok toast_ok_other [of "ToastOut (length tss)" k clk ts _ "[]"] by (simp add: toasts_ok_def nth_append)
  next
    case False
    then have "k = length tss" using k by simp
    then show ?thesis
      using below by (auto simp: toast_ok_def task_count_def list_all_iff filter_empty_conv)
  qed
next
  show "list_all (\<lambda>(_, x). toast_below (length (tss @ [\<lparr>t_msg = m, t_top = tp, t_created = clk,
          t_anim = SlideIn, t_attached = True\<rparr>])) x) (ts @ [(clk + 3000, ToastOut (length tss))])"
    using ok by (auto simp: toasts_ok_def list_all_iff intro: toast_below_mono)
qed

lemma toasts_ok_timer_other:
  "toasts_ok clk tss ts \<Longrightarrow> (\<And>k. x \<noteq> ToastOut k \<and> x \<noteq> ToastRemove k) \<Longrightarrow> toasts_ok clk tss (ts @ [(d, x)])"
  using toast_ok_other [of x _ clk ts d "[]"] by (cases x) (auto simp: toasts_ok_def)

lemma toasts_ok_drop_other:
  "toasts_ok clk tss (xs @ (d, x) # ys) \<Longrightarrow> (\<And>k. x \<noteq> ToastOut k \<and> x \<noteq> ToastRemove k) \<Longrightarrow>
   toasts_ok clk tss (xs @ ys)"
  using toast_ok_other [of x _ clk xs d ys] by (auto simp: toasts_ok_def)

lemma toast_ok_count_Suc:
  "task_count (ToastOut k) (xs @ (d, x) # ys) = task_count (ToastOut k) (xs @ ys) + (if x = ToastOut k then 1 else 0)"
  "task_count (ToastRemove k) (xs @ (d, x) # ys) = task_count (ToastRemove k) (xs @ ys) + (if x = ToastRemove k then 1 else 0)"
  by (simp_all add: task_count_def)

lemma toasts_ok_fire_out:
  assumes ok: "toasts_ok clk tss (xs @ (d, ToastOut k) # ys)" and due: "d \<le> clk"
  shows "toasts_ok clk (map_at k (\<lambda>t. t\<lparr>t_anim := SlideOut\<rparr>) tss) ((xs @ ys) @ [(clk + 300, ToastRemove k)])"
proof -
  let ?ts = "xs @ (d, ToastOut k) # ys"
  have k: "k < length tss" and below: "list_all (\<lambda>(_, x). toast_below (length tss) x) (xs @ ys)"
    using ok by (simp_all add: toasts_ok_def)
  have okk: "toast_ok clk ?ts k (tss ! k)" using ok k by (simp add: toasts_ok_def)
  then have st: "t_attached (tss ! k)" "t_anim (tss ! k) = SlideIn" "task_count (ToastOut k) (xs @ ys) = 0"
    "task_count (ToastRemove k) (xs @ ys) = 0" "d = t_created (tss ! k) + 3000" "t_created (tss ! k) \<le> clk"
    by (auto simp: toast_ok_def toast_ok_count_Suc split: if_splits)
  show ?thesis
    unfolding toasts_ok_def
  proof (intro conjI allI impI)
    fix k' assume k': "k' < length (map_at k (\<lambda>t. t\<lparr>t_anim := SlideOut\<rparr>) tss)"
    show "toast_ok clk ((xs @ ys) @ [(clk + 300, ToastRemove k)]) k' (map_at k (\<lambda>t. t\<lparr>t_anim := SlideOut\<rparr>) tss ! k')"
    proof (cases "k' = k")
      case True
      then show ?thesis
        using st due k by (auto simp: toast_ok_def nth_map_at task_count_def list_all_iff filter_empty_conv)
    next
      case False
      have "toast_ok clk ?ts k' (tss ! k')" using ok k' by (simp add: toasts_ok_def)
      then show ?thesis
        using False k' toast_ok_other [of "ToastOut k" k' clk xs d ys] toast_ok_other [of "ToastRemove k" k' clk "xs @ ys" _ "[]"]
        by (simp add: nth_map_at)
    qed
  qed (use below k in \<open>simp\<close>)
qed

lemma toasts_ok_fire_rm:
  assumes ok: "toasts_ok clk tss (xs @ (d, ToastRemove k) # ys)" and due: "d \<le> clk"
  shows "toasts_ok clk (map_at k (\<lambda>t. t\<lparr>t_attached := False\<rparr>) tss) (xs @ ys)"
proof -
  let ?ts = "xs @ (d, ToastRemove k) # ys"
  have k: "k < length tss" and below: "list_all (\<lambda>(_, x). toast_below (length tss) x) (xs @ ys)"
    using ok by (simp_all add: toasts_ok_def)
  have okk: "toast_ok clk ?ts k (tss ! k)" using ok k by (simp add: toasts_ok_def)
  then have st: "t_anim (tss ! k) = SlideOut" "task_count (ToastOut k) (xs @ ys) = 0"
    "task_count (ToastRemove k) (xs @ ys) = 0" "t_created (tss ! k) + 3300 \<le> d" "t_created (tss ! k) \<le> clk"
    by (auto simp: toast_ok_def toast_ok_count_Suc split: if_splits)
  show ?thesis
    unfolding toasts_ok_def
  proof (intro conjI allI impI)
    fix k' assume k': "k' < length (map_at k (\<lambda>t. t\<lparr>t_attached := False\<rparr>) tss)"
    show "toast_ok clk (xs @ ys) k' (map_at k (\<lambda>t. t\<lparr>t_attached := False\<rparr>) tss ! k')"
    proof (cases "k' = k")
      case True
      then show ?thesis using st due k by (simp add: toast_ok_def nth_map_at)
    next
      case False
      have "toast_ok clk ?ts k' (tss ! k')" using ok k' by (simp add: toasts_ok_def)
      then show ?thesis using False k' toast_ok_other [of "ToastRemove k" k' clk xs d ys] by (simp add: nth_map_at)
    qed
  qed (use below in simp)
qed

lemma toast_inv_frame [simp]:
  "toast_inv (p\<lparr>nav_links := a\<rparr>) = toast_inv p" "toast_inv (p\<lparr>pages := b\<rparr>) = toast_inv p"
  "toast_inv (p\<lparr>cartCount := c\<rparr>) = toast_inv p" "toast_inv (p\<lparr>cart_shown := d\<rparr>) = toast_inv p"
  "toast_inv (p\<lparr>small_btns := e\<rparr>) = toast_inv p" "toast_inv (p\<lparr>filter_btns := f\<rparr>) = toast_inv p"
  "toast_inv (p\<lparr>tab_btns := g\<rparr>) = toast_inv p" "toast_inv (p\<lparr>library := h\<rparr>) = toast_inv p"
  "toast_inv (p\<lparr>deferredPrompt := i\<rparr>) = toast_inv p" "toast_inv (p\<lparr>install_btns := j\<rparr>) = toast_inv p"
  "toast_inv (p\<lparr>awaiting := k\<rparr>) = toast_inv p"
  by (simp_all add: toast_inv_def)

lemma toast_inv_show: "toast_inv p \<Longrightarrow> toast_inv (showNotification m p)"
  by (simp add: toast_inv_def showNotification_toasts toasts_ok_show)

lemma toast_inv_timer_other:
  "toast_inv p \<Longrightarrow> (\<And>k. x \<noteq> ToastOut k \<and> x \<noteq> ToastRemove k) \<Longrightarrow> toast_inv (setTimeout ms x p)"
  by (simp add: toast_inv_def setTimeout_def toasts_ok_timer_other)

lemma toast_inv_fire:
  assumes inv: "toast_inv p" and ts: "ptimers p = xs @ (d, task) # ys" and due: "d \<le> now p"
  shows "toast_inv (run_task task (p\<lparr>ptimers := xs @ ys\<rparr>))"
proof (cases task)
  case (ToastOut k)
  then show ?thesis
    using toasts_ok_fire_out [of "now p" "toasts p" xs d k ys] inv ts due by (simp add: toast_inv_def setTimeout_def)
next
  case (ToastRemove k)
  then show ?thesis
    using toasts_ok_fire_rm [of "now p" "toasts p" xs d k ys] inv ts due by (simp add: toast_inv_def)
next
  case (ScaleBack j)
  then show ?thesis
    using toasts_ok_drop_other [of "now p" "toasts p" xs d task ys] inv ts by (simp add: toast_inv_def)
next
  case (InstallDone j t)
  then have "toast_inv (p\<lparr>ptimers := xs @ ys\<rparr>)"
    using toasts_ok_drop_other [of "now p" "toasts p" xs d task ys] inv ts by (simp add: toast_inv_def)
  then show ?thesis using InstallDone by (simp add: toast_inv_show)
qed

lemma toast_inv_step: "toast_inv p \<Longrightarrow> page_step p e = Some q \<Longrightarrow> toast_inv q"
proof (cases e)
  case Fire
  assume "toast_inv p" "page_step p e = Some q"
  then show ?thesis using Fire by (auto dest!: fire_SomeD intro: toast_inv_fire)
next
  case (Advance t)
  assume "toast_inv p" "page_step p e = Some q"
  then show ?thesis using Advance by (auto simp: toast_inv_def intro: toasts_ok_mono split: if_splits)
next
  case (UserChoice e' acc)
  assume "toast_inv p" "page_step p e = Some q"
  then show ?thesis using UserChoice
    by (auto intro!: user_choice_preserve [where P = toast_inv] toast_inv_show simp: resume_install_def split: if_splits)
next
  case (LibraryClick j)
  assume inv: "toast_inv p" and st: "page_step p e = Some q"
  obtain j: "j < length (library p)" and q: "q = fst (library_click j p)" by (rule page_step_LibraryClickE [OF st [unfolded LibraryClick]])
  from j show ?thesis
    by (cases rule: library_click_cases) (simp_all add: q inv toast_inv_show toast_inv_timer_other)
qed (auto simp: nav_click_def Let_def on_search_def filter_click_def tab_click_def
        on_profile_submit_def on_switch_change_def cart_click_def updateCartCount_def
        on_trailer_click_def on_buy_click_def on_news_click_def on_beforeinstallprompt_def install_click_def
        on_appinstalled_def on_online_def on_offline_def
      intro!: toast_inv_show toast_inv_timer_other split: list.splits option.splits if_splits)

subsection \<open>Reachable pages\<close>

lemma page_inv_load: "load_ok sbs fbs tbs lib \<Longrightarrow> page_inv (page_load wco ls ps n sbs fbs tbs lib)"
  by (auto simp: page_inv_def load_ok_def page_load_def wco_initial_def cart_inv_def group_inv_def lib_inv_def
      install_timers_def list_all_iff count_list_0_iff toast_inv_def toasts_ok_def showNotification_toasts
      toast_ok_def task_count_def nth_Cons' split: if_splits)

lemma page_inv_step: "page_inv p \<Longrightarrow> page_step p e = Some q \<Longrightarrow> page_inv q"
  unfolding page_inv_def using cart_inv_step group_inv_step lib_inv_step toast_inv_step by blast

lemma page_reachable_inv: "page_reachable p \<Longrightarrow> page_inv p"
  by (induction rule: page_reachable.induct) (auto intro: page_inv_load page_inv_step)

text \<open>
  C26. In every reachable page the cart counter equals the number of buttons that read
  \<open>(check) Agregado\<close>, and every \<open>.cart-count\<close> element shows it: the counter counts
  the games added, each at most once.
\<close>

theorem reachable_cart_count:
  assumes "page_reachable p"
  shows "cartCount p = count_list (map sb_text (small_btns p)) ADDED_LABEL
       \<and> list_all (\<lambda>n. n = cartCount p) (cart_shown p) \<and> cartCount p \<le> length (small_btns p)"
proof -
  have "cart_inv p" using page_reachable_inv [OF assms] by (simp add: page_inv_def)
  moreover have "count_list (map sb_text (small_btns p)) ADDED_LABEL \<le> length (small_btns p)"
    using count_le_length [of "map sb_text (small_btns p)"] by simp
  ultimately show ?thesis unfolding cart_inv_def by auto
qed

theorem reachable_cart_count_witness:
  "let Q = cart_click 0 (page_load False [] [] 2 [\<lparr>sb_text = ADD_LABEL, sb_background = ''#333'', sb_transform = ''none''\<rparr>,
             \<lparr>sb_text = ADD_LABEL, sb_background = ''#333'', sb_transform = ''none''\<rparr>] [] [] [])
   in page_reachable Q \<and> cartCount Q = 1 \<and> cart_shown Q = [1, 1]
      \<and> cartCount Q = count_list (map sb_text (small_btns Q)) ADDED_LABEL"
proof -
  let ?P = "page_load False [] [] 2 [\<lparr>sb_text = ADD_LABEL, sb_background = ''#333'', sb_transform = ''none''\<rparr>,
             \<lparr>sb_text = ADD_LABEL, sb_background = ''#333'', sb_transform = ''none''\<rparr>] [] [] []"
  have "page_reachable ?P" by (rule page_reachable.load) (simp add: load_ok_def ADD_LABEL_def ADDED_LABEL_def)
  then have r: "page_reachable (cart_click 0 ?P)"
    by (rule page_reachable.step [where e = "CartClick 0"]) (simp add: page_load_def wco_initial_def)
  show ?thesis
    using reachable_cart_count [OF r] r by (simp add: page_eval_simps numeral_2_eq_2)
qed

text \<open>
  C27. In every reachable page at most one library filter button and at most one
  community tab button is active.
\<close>

theorem reachable_groups_exclusive:
  assumes "page_reachable p"
  shows "length (filter gb_active (filter_btns p)) \<le> 1 \<and> length (filter gb_active (tab_btns p)) \<le> 1"
  using page_reachable_inv [OF assms] by (simp add: page_inv_def group_inv_def)

theorem reachable_groups_exclusive_witness:
  "let Q = the (page_run (page_load False [] [] 0 []
             [\<lparr>gb_text = ''Todos'', gb_active = True\<rparr>, \<lparr>gb_text = ''Instalados'', gb_active = False\<rparr>] [] [])
             [FilterClick 1, FilterClick 0])
   in page_reachable Q \<and> length (filter gb_active (filter_btns Q)) = 1"
proof -
  let ?P = "page_load False [] [] 0 []
             [\<lparr>gb_text = ''Todos'', gb_active = True\<rparr>, \<lparr>gb_text = ''Instalados'', gb_active = False\<rparr>] [] []"
  let ?es = "[FilterClick 1, FilterClick 0]"
  have "page_reachable ?P" by (rule page_reachable.load) (simp add: load_ok_def)
  moreover have run: "page_run ?P ?es = Some (the (page_run ?P ?es))" by (simp add: page_eval_simps)
  ultimately have r: "page_reachable (the (page_run ?P ?es))" by (rule page_reachable_run)
  have "length (filter gb_active (filter_btns (the (page_run ?P ?es)))) = 1"
    by (simp add: page_eval_simps)
  then show ?thesis using reachable_groups_exclusive [OF r] r by simp
qed

lemma install_timers_pos: "0 < install_timers j ts \<longleftrightarrow> (\<exists>d t. (d, InstallDone j t) \<in> set ts)"
proof -
  have "0 < install_timers j ts \<longleftrightarrow> (\<exists>x \<in> set ts. install_of j (snd x))"
    by (simp add: install_timers_def filter_empty_conv case_prod_unfold length_greater_0_conv)
  also have "\<dots> \<longleftrightarrow> (\<exists>d t. (d, InstallDone j t) \<in> set ts)"
  proof
    assume "\<exists>x \<in> set ts. install_of j (snd x)"
    then obtain d x where "(d, x) \<in> set ts" "install_of j x" by auto
    then show "\<exists>d t. (d, InstallDone j t) \<in> set ts" by (cases x) auto
  qed force
  finally show ?thesis .
qed

text \<open>
  C28. In every reachable page a library button is disabled exactly when its simulated
  installation is pending, as one \<open>setTimeout\<close> of the click handler; there is never a
  second one for the same button. So every disabled button is re-enabled when its timer fires.
\<close>

theorem reachable_install_pending:
  assumes "page_reachable p" and "j < length (library p)"
  shows "(lb_disabled (library p ! j) \<longleftrightarrow> (\<exists>d t. (d, InstallDone j t) \<in> set (ptimers p)))
       \<and> install_timers j (ptimers p) \<le> 1"
proof -
  have "install_timers j (ptimers p) = (if lb_disabled (library p ! j) then 1 else 0)"
    using page_reachable_inv [OF assms(1)] assms(2) by (simp add: page_inv_def lib_inv_def)
  then show ?thesis using install_timers_pos [of j "ptimers p"] by auto
qed

theorem reachable_install_pending_witness:
  "let Q = the (page_run (page_load False [] [] 0 [] [] []
             [\<lparr>lb_text = ''Instalar'', lb_title = Some ''Celeste'', lb_disabled = False, lb_primary = False\<rparr>])
             [LibraryClick 0, Advance 1000])
   in page_reachable Q \<and> 0 < length (library Q) \<and> lb_disabled (library Q ! 0)
      \<and> (\<exists>d t. (d, InstallDone 0 t) \<in> set (ptimers Q)) \<and> install_timers 0 (ptimers Q) \<le> 1"
proof -
  let ?P = "page_load False [] [] 0 [] [] []
             [\<lparr>lb_text = ''Instalar'', lb_title = Some ''Celeste'', lb_disabled = False, lb_primary = False\<rparr>]"
  let ?es = "[LibraryClick 0, Advance 1000]"
  have "page_reachable ?P" by (rule page_reachable.load) (simp add: load_ok_def)
  moreover have run: "page_run ?P ?es = Some (the (page_run ?P ?es))" by (simp add: page_eval_simps)
  ultimately have r: "page_reachable (the (page_run ?P ?es))" by (rule page_reachable_run)
  have l: "0 < length (library (the (page_run ?P ?es)))" "lb_disabled (library (the (page_run ?P ?es)) ! 0)"
    by (simp_all add: page_eval_simps)
  show ?thesis using reachable_install_pending [OF r l(1)] r l by (simp only: Let_def)
qed

text \<open>
  C29. Toast lifetimes in every reachable page: a toast starts sliding out no earlier than
  3000 ms after it was shown and is removed no earlier than 3300 ms after; a removed toast
  has no timer left, and a toast still on screen has exactly one pending timer that
  advances it.
\<close>

theorem reachable_toast_lifetime:
  assumes "page_reachable p" and "k < length (toasts p)"
  shows "t_created (toasts p ! k) \<le> now p
     \<and> (t_anim (toasts p ! k) = SlideOut \<longrightarrow> t_created (toasts p ! k) + 3000 \<le> now p)
     \<and> (\<not> t_attached (toasts p ! k) \<longrightarrow> t_created (toasts p ! k) + 3300 \<le> now p
          \<and> task_count (ToastOut k) (ptimers p) = 0 \<and> task_count (ToastRemove k) (ptimers p) = 0)
     \<and> (t_attached (toasts p ! k) \<longrightarrow> task_count (ToastOut k) (ptimers p) + task_count (ToastRemove k) (ptimers p) = 1)"
proof -
  have "toast_ok (now p) (ptimers p) k (toasts p ! k)"
    using page_reachable_inv [OF assms(1)] assms(2) by (simp add: page_inv_def toast_inv_def toasts_ok_def)
  then show ?thesis by (auto simp: toast_ok_def split: if_splits)
qed

theorem reachable_toast_lifetime_witness:
  "let Q = the (page_run (page_load True [] [] 0 [] [] [] []) [Advance 3000, Fire, Advance 3300, Fire])
   in page_reachable Q \<and> 0 < length (toasts Q) \<and> \<not> t_attached (toasts Q ! 0)
      \<and> t_created (toasts Q ! 0) + 3300 \<le> now Q"
proof -
  let ?P = "page_load True [] [] 0 [] [] [] []"
  let ?es = "[Advance 3000, Fire, Advance 3300, Fire]"
  have "page_reachable ?P" by (rule page_reachable.load) (simp add: load_ok_def)
  moreover have "page_run ?P ?es = Some (the (page_run ?P ?es))" by (simp add: page_eval_simps)
  ultimately have r: "page_reachable (the (page_run ?P ?es))" by (rule page_reachable_run)
  have l: "0 < length (toasts (the (page_run ?P ?es)))" "\<not> t_attached (toasts (the (page_run ?P ?es)) ! 0)"
    by (simp_all add: page_eval_simps)
  show ?thesis using reachable_toast_lifetime [OF r l(1)] r l by (simp only: Let_def) blast
qed

text \<open>
  C30. From every reachable page, with no further user action, the browser reaches by
  timer callbacks and the passing of time alone a page with no pending timer, in which
  every toast has been removed and every simulated installation has completed.
\<close>

theorem timers_settle:
  assumes "page_reachable p"
  shows "\<exists>es. list_all is_timer_event es \<and> page_run p es = Some (drain p)
           \<and> ptimers (drain p) = [] \<and> list_all (\<lambda>t. \<not> t_attached t) (toasts (drain p))
           \<and> list_all (\<lambda>b. \<not> lb_disabled b) (library (drain p))"
proof -
  obtain es where es: "list_all is_timer_event es" "page_run p es = Some (drain p)"
    using drain_run by blast
  then have "page_inv (drain p)" using page_reachable_run [OF assms] page_reachable_inv by blast
  then have "toast_inv (drain p)" "lib_inv (drain p)" by (simp_all add: page_inv_def)
  then have "list_all (\<lambda>t. \<not> t_attached t) (toasts (drain p))"
    "list_all (\<lambda>b. \<not> lb_disabled b) (library (drain p))"
    by (auto simp: toast_inv_def toasts_ok_def toast_ok_def lib_inv_def install_timers_def task_count_def
        drain_timers list_all_length split: if_splits)
  then show ?thesis using es drain_timers by blast
qed

theorem timers_settle_witness:
  "let P = cart_click 0 (page_load True [] [] 0 [\<lparr>sb_text = ADD_LABEL, sb_background = ''#333'', sb_transform = ''none''\<rparr>]
             [] [] [\<lparr>lb_text = ''Jugar'', lb_title = Some ''Celeste'', lb_disabled = False, lb_primary = False\<rparr>])
   in page_reachable P \<and> ptimers P \<noteq> [] \<and> ptimers (drain P) = []
      \<and> list_all (\<lambda>t. \<not> t_attached t) (toasts (drain P))"
proof -
  let ?L = "page_load True [] [] 0 [\<lparr>sb_text = ADD_LABEL, sb_background = ''#333'', sb_transform = ''none''\<rparr>]
             [] [] [\<lparr>lb_text = ''Jugar'', lb_title = Some ''Celeste'', lb_disabled = False, lb_primary = False\<rparr>]"
  have "page_reachable ?L" by (rule page_reachable.load) (simp add: load_ok_def ADD_LABEL_def ADDED_LABEL_def)
  then have r: "page_reachable (cart_click 0 ?L)"
    by (rule page_reachable.step [where e = "CartClick 0"]) (simp add: page_load_def wco_initial_def showNotification_def setTimeout_def)
  have "ptimers (cart_click 0 ?L) \<noteq> []" by (simp add: page_eval_simps)
  then show ?thesis using timers_settle [OF r] r by (simp only: Let_def) blast
qed


end
