(* ===== verification/Debounce.thy ===== *)
theory Debounce
  imports Prelude
begin

text \<open>
  The \<open>debounce\<close> helper of \<open>src/pwa/app.js\<close> (lines 6--16) together with the
  browser timers it uses. The closure's variable \<open>timeout\<close> is a field of the state;
  \<open>setTimeout\<close> queues a timer (a fresh id, a due time, the arguments the callback
  \<open>later\<close> captured) and \<open>clearTimeout\<close> drops the timer with an id. The event loop
  is \<open>advance\<close>: when time moves to \<open>t\<close>, the due timers fire, earliest first; a
  timer due at the very moment of a call fires before the call is handled. Times are
  milliseconds as \<open>nat\<close>. \<open>deb_run\<close> feeds a list of timed calls; \<open>runs\<close> is the
  reference specification of which calls reach \<open>func\<close>: a call runs, \<open>wait\<close> ms
  after it was made, exactly when no other call came before that moment.
\<close>

type_synonym 'a timer = "nat \<times> nat \<times> 'a"

record 'a debouncer =
  clock :: nat
  timeout :: "nat option"
  timers :: "'a timer list"
  next_id :: nat
  invoked :: "(nat \<times> 'a) list"

definition deb_init :: "'a debouncer" where
  "deb_init = \<lparr>clock = 0, timeout = None, timers = [], next_id = 1, invoked = []\<rparr>"

text \<open>\<open>clearTimeout(undefined)\<close> does nothing; \<open>clearTimeout(i)\<close> drops timer \<open>i\<close>.\<close>

definition clearTimeout :: "nat option \<Rightarrow> 'a timer list \<Rightarrow> 'a timer list" where
  "clearTimeout t ts = (case t of None \<Rightarrow> ts | Some i \<Rightarrow> filter (\<lambda>x. fst x \<noteq> i) ts)"

text \<open>\<open>executedFunction(...args)\<close>: clear the pending timer, set a new one.\<close>

definition executedFunction :: "nat \<Rightarrow> 'a \<Rightarrow> 'a debouncer \<Rightarrow> 'a debouncer" where
  "executedFunction wait args d =
     (let ts = clearTimeout (timeout d) (timers d); i = next_id d
      in d\<lparr>timers := ts @ [(i, clock d + wait, args)], timeout := Some i, next_id := Suc i\<rparr>)"

text \<open>\<open>later\<close>, run by a fired timer: \<open>clearTimeout(timeout)\<close>, then \<open>func(...args)\<close>.\<close>

definition later :: "'a \<Rightarrow> 'a debouncer \<Rightarrow> 'a debouncer" where
  "later args d = d\<lparr>timers := clearTimeout (timeout d) (timers d), invoked := invoked d @ [(clock d, args)]\<rparr>"

text \<open>The earliest timer of the queue, the first one queued among equal due times.\<close>

fun earliest :: "'a timer list \<Rightarrow> 'a timer option" where
  "earliest [] = None"
| "earliest (x # xs) =
     (case earliest xs of
        None \<Rightarrow> Some x
      | Some y \<Rightarrow> (if fst (snd y) < fst (snd x) then Some y else Some x))"

function advance :: "nat \<Rightarrow> 'a debouncer \<Rightarrow> 'a debouncer" where
  "advance t d =
     (case earliest (timers d) of
        None \<Rightarrow> d\<lparr>clock := max (clock d) t\<rparr>
      | Some (i, due, a) \<Rightarrow>
          (if due \<le> t
           then advance t (later a (d\<lparr>clock := max (clock d) due,
                                      timers := filter (\<lambda>x. fst x \<noteq> i) (timers d)\<rparr>))
           else d\<lparr>clock := max (clock d) t\<rparr>))"
  by pat_completeness auto

termination
proof (relation "measure (\<lambda>(t, d). length (timers d))", goal_cases)
  case 1
  then show ?case by simp
next
  case (2 t d x2 i y due a)
  have mem: "earliest ts = Some z \<Longrightarrow> z \<in> set ts" for ts :: "'a timer list" and z
    by (induction ts) (auto split: option.splits if_splits)
  from 2 have "(i, due, a) \<in> set (timers d)" by (auto dest: mem)
  then have lt: "length (filter (\<lambda>x. fst x \<noteq> i) (timers d)) < length (timers d)"
    by (auto intro: length_filter_less)
  have "length (clearTimeout t' ts) \<le> length ts" for t' and ts :: "'a timer list"
    by (simp add: clearTimeout_def split: option.splits)
  with lt show ?case
    by (simp add: later_def) (meson le_less_trans)
qed


text \<open>A call of the debounced function at time \<open>t\<close>: time first moves to \<open>t\<close>.\<close>

definition deb_call :: "nat \<Rightarrow> nat \<Rightarrow> 'a \<Rightarrow> 'a debouncer \<Rightarrow> 'a debouncer" where
  "deb_call wait t args d = executedFunction wait args (advance t d)"

fun deb_run :: "nat \<Rightarrow> 'a debouncer \<Rightarrow> (nat \<times> 'a) list \<Rightarrow> 'a debouncer" where
  "deb_run wait d [] = d"
| "deb_run wait d ((t, a) # cs) = deb_run wait (deb_call wait t a d) cs"

text \<open>
  Reference specification: the calls that reach \<open>func\<close>, with the time they reach it,
  for calls \<open>cs\<close> (time, arguments) observed until time \<open>T\<close>.
\<close>

fun runs :: "nat \<Rightarrow> (nat \<times> 'a) list \<Rightarrow> nat \<Rightarrow> (nat \<times> 'a) list" where
  "runs w [] T = []"
| "runs w [(t, a)] T = (if t + w \<le> T then [(t + w, a)] else [])"
| "runs w ((t, a) # (t', b) # cs) T = (if t + w \<le> t' then [(t + w, a)] else []) @ runs w ((t', b) # cs) T"

text \<open>A burst: each call comes less than \<open>w\<close> ms after the one before it.\<close>

fun burst :: "nat \<Rightarrow> (nat \<times> 'a) list \<Rightarrow> bool" where
  "burst w [] = True"
| "burst w [c] = True"
| "burst w ((t, a) # (t', b) # cs) = (t' < t + w \<and> burst w ((t', b) # cs))"

text \<open>The same, from a state with a possibly pending call (its due time and arguments).\<close>

fun pend_runs :: "nat \<Rightarrow> (nat \<times> 'a) option \<Rightarrow> (nat \<times> 'a) list \<Rightarrow> nat \<Rightarrow> (nat \<times> 'a) list" where
  "pend_runs w p [] T = (case p of None \<Rightarrow> [] | Some (due, a) \<Rightarrow> if due \<le> T then [(due, a)] else [])"
| "pend_runs w p ((t, a) # cs) T =
     (case p of None \<Rightarrow> [] | Some (due, b) \<Rightarrow> if due \<le> t then [(due, b)] else [])
     @ pend_runs w (Some (t + w, a)) cs T"

definition pending_call :: "'a debouncer \<Rightarrow> (nat \<times> 'a) option" where
  "pending_call d = (case timers d of [] \<Rightarrow> None | (i, due, a) # _ \<Rightarrow> Some (due, a))"

definition deb_inv :: "'a debouncer \<Rightarrow> bool" where
  "deb_inv d \<longleftrightarrow> length (timers d) \<le> 1
     \<and> list_all (\<lambda>(i, due, _). timeout d = Some i \<and> i < next_id d \<and> clock d \<le> due) (timers d)"

inductive deb_reachable :: "nat \<Rightarrow> 'a debouncer \<Rightarrow> bool" for wait where
  init: "deb_reachable wait deb_init"
| call: "deb_reachable wait d \<Longrightarrow> clock d \<le> t \<Longrightarrow> deb_reachable wait (deb_call wait t a d)"
| tick: "deb_reachable wait d \<Longrightarrow> clock d \<le> t \<Longrightarrow> deb_reachable wait (advance t d)"

declare advance.simps [simp del]

subsection \<open>One step of the event loop, one call\<close>

lemma deb_inv_cases:
  "deb_inv d \<Longrightarrow>
     timers d = [] \<or> (\<exists>i due a. timers d = [(i, due, a)] \<and> timeout d = Some i \<and> i < next_id d \<and> clock d \<le> due)"
  by (cases "timers d") (auto simp: deb_inv_def)

lemma advance_empty:
  "timers d = [] \<Longrightarrow> advance t d = d\<lparr>clock := max (clock d) t\<rparr>"
  by (simp add: advance.simps)

lemma advance_single:
  assumes "timers d = [(i, due, a)]" and "timeout d = Some i" and "clock d \<le> due"
  shows "advance t d =
           (if due \<le> t then d\<lparr>clock := max due t, timers := [], invoked := invoked d @ [(due, a)]\<rparr>
            else d\<lparr>clock := max (clock d) t\<rparr>)"
  using assms
  by (simp add: advance.simps [of t d] advance_empty later_def clearTimeout_def max_absorb2)

lemma advance_step:
  assumes "deb_inv d" and "clock d \<le> t"
  shows "invoked (advance t d) = invoked d @ pend_runs w (pending_call d) [] t
     \<and> clock (advance t d) = t \<and> deb_inv (advance t d)
     \<and> timeout (advance t d) = timeout d \<and> next_id (advance t d) = next_id d"
  using deb_inv_cases [OF assms(1)]
proof
  assume "timers d = []"
  with assms show ?thesis
    by (simp add: advance_empty pending_call_def deb_inv_def max_absorb2)
next
  assume "\<exists>i due a. timers d = [(i, due, a)] \<and> timeout d = Some i \<and> i < next_id d \<and> clock d \<le> due"
  then obtain i due a where "timers d = [(i, due, a)]" "timeout d = Some i" "i < next_id d" "clock d \<le> due"
    by blast
  with assms show ?thesis
    by (simp add: advance_single pending_call_def deb_inv_def max_def)
qed

lemma executedFunction_step:
  assumes "deb_inv d"
  shows "deb_inv (executedFunction w a d) \<and> pending_call (executedFunction w a d) = Some (clock d + w, a)
     \<and> invoked (executedFunction w a d) = invoked d \<and> clock (executedFunction w a d) = clock d"
  using deb_inv_cases [OF assms]
  by (auto simp: executedFunction_def clearTimeout_def deb_inv_def pending_call_def Let_def
      split: option.splits)

lemma deb_call_step:
  assumes "deb_inv d" and "clock d \<le> t"
  shows "deb_inv (deb_call w t a d) \<and> pending_call (deb_call w t a d) = Some (t + w, a)
     \<and> clock (deb_call w t a d) = t
     \<and> invoked (deb_call w t a d) = invoked d @ pend_runs w (pending_call d) [] t"
  using advance_step [OF assms, of w] executedFunction_step [of "advance t d" w a]
  by (simp add: deb_call_def)

lemma deb_inv_init [simp]: "deb_inv deb_init"
  by (simp add: deb_init_def deb_inv_def)


subsection \<open>Runs of timed calls\<close>

lemma pend_runs_Some: "pend_runs w (Some (t + w, a)) cs T = runs w ((t, a) # cs) T"
proof (induction cs arbitrary: t a)
  case Nil
  then show ?case by simp
next
  case (Cons c cs)
  then show ?case by (cases c) simp
qed

lemma pend_runs_None: "pend_runs w None cs T = runs w cs T"
  by (cases cs) (auto simp: pend_runs_Some)

lemma deb_run_pending:
  assumes "deb_inv d" and "sorted (map fst cs)" and "list_all (\<lambda>(t, _). clock d \<le> t \<and> t \<le> T) cs"
    and "clock d \<le> T"
  shows "invoked (advance T (deb_run w d cs)) = invoked d @ pend_runs w (pending_call d) cs T"
  using assms
proof (induction cs arbitrary: d)
  case Nil
  then show ?case using advance_step [of d T w] by simp
next
  case (Cons c cs)
  obtain t a where c: "c = (t, a)" by (cases c)
  with Cons.prems have t: "clock d \<le> t" "t \<le> T" by auto
  let ?d1 = "deb_call w t a d"
  from deb_call_step [OF Cons.prems(1) t(1)] have
    d1: "deb_inv ?d1" "pending_call ?d1 = Some (t + w, a)" "clock ?d1 = t"
        "invoked ?d1 = invoked d @ pend_runs w (pending_call d) [] t"
    by auto
  from Cons.prems(2,3) c d1(3) have "sorted (map fst cs)" "list_all (\<lambda>(t', _). clock ?d1 \<le> t' \<and> t' \<le> T) cs"
    by (auto simp: list_all_iff)
  with Cons.IH [OF d1(1)] t(2) d1(3) have
    "invoked (advance T (deb_run w ?d1 cs)) = invoked ?d1 @ pend_runs w (Some (t + w, a)) cs T"
    by (simp add: d1(2))
  with c d1(4) show ?case
    by (simp split: option.splits)
qed

lemma deb_run_inv:
  assumes "deb_inv d" and "list_all (\<lambda>(t, _). clock d \<le> t) cs" and "sorted (map fst cs)"
  shows "deb_inv (deb_run w d cs)"
  using assms
proof (induction cs arbitrary: d)
  case Nil
  then show ?case by simp
next
  case (Cons c cs)
  obtain t a where c: "c = (t, a)" by (cases c)
  with Cons.prems have t: "clock d \<le> t" by auto
  from deb_call_step [OF Cons.prems(1) t] have d1: "deb_inv (deb_call w t a d)" "clock (deb_call w t a d) = t"
    by auto
  from Cons.prems(3) c d1(2) have "list_all (\<lambda>(t', _). clock (deb_call w t a d) \<le> t') cs"
    by (auto simp: list_all_iff)
  moreover from Cons.prems(3) have "sorted (map fst cs)" by simp
  ultimately have "deb_inv (deb_run w (deb_call w t a d) cs)"
    using Cons.IH d1(1) by blast
  with c show ?case by simp
qed

lemma runs_snoc_last:
  assumes "t + w \<le> T"
  shows "runs w (cs @ [(t, a)]) T \<noteq> [] \<and> last (runs w (cs @ [(t, a)]) T) = (t + w, a)"
proof (induction cs)
  case Nil
  with assms show ?case by simp
next
  case (Cons c cs)
  obtain c2 rest where eq: "cs @ [(t, a)] = c2 # rest"
    by (cases "cs @ [(t, a)]") auto
  obtain t0 a0 where c: "c = (t0, a0)" by (cases c)
  have "runs w (c # cs @ [(t, a)]) T
        = (if t0 + w \<le> fst c2 then [(t0 + w, a0)] else []) @ runs w (cs @ [(t, a)]) T"
    by (cases c2) (simp add: c eq)
  with Cons.IH show ?case by simp
qed

lemma pending_call_init [simp]: "pending_call deb_init = None" "invoked deb_init = []" "clock deb_init = 0"
  by (simp_all add: deb_init_def pending_call_def)

subsection \<open>Properties of \<open>debounce\<close>\<close>

lemma runs_burst:
  "burst w cs \<Longrightarrow> cs \<noteq> [] \<Longrightarrow> fst (last cs) + w \<le> T \<Longrightarrow> runs w cs T = [(fst (last cs) + w, snd (last cs))]"
  by (induction w cs T rule: runs.induct) auto

text \<open>
  C17. Equivalence with the reference specification: for calls made at nondecreasing
  times, observed until time \<open>T\<close>, the debounced function hands to \<open>func\<close> exactly
  the calls that \<open>runs\<close> lists, at the times it lists: each call whose successor comes
  \<open>wait\<close> ms or more after it (or, for the last call, before \<open>T\<close>), \<open>wait\<close> ms
  after it was made, with its own arguments.
\<close>

theorem debounce_runs_spec:
  assumes "sorted (map fst cs)" and "list_all (\<lambda>(t, _). t \<le> T) cs"
  shows "invoked (advance T (deb_run w deb_init cs)) = runs w cs T"
  using deb_run_pending [OF deb_inv_init assms(1), of T w] assms(2)
  by (simp add: pend_runs_None list_all_iff)

theorem debounce_runs_spec_witness:
  "sorted (map fst [(0::nat, ''a''), (100, ''b''), (500, ''c'')])
   \<and> list_all (\<lambda>(t, _). t \<le> 1000) [(0::nat, ''a''), (100, ''b''), (500, ''c'')]
   \<and> invoked (advance 1000 (deb_run 200 deb_init [(0, ''a''), (100, ''b''), (500, ''c'')]))
       = [(300, ''b''), (700, ''c'')]"
proof -
  have h: "sorted (map fst [(0::nat, ''a''), (100, ''b''), (500, ''c'')])"
    "list_all (\<lambda>(t, _). t \<le> 1000) [(0::nat, ''a''), (100, ''b''), (500, ''c'')]"
    by simp_all
  show ?thesis using h debounce_runs_spec [OF h, of 200] by simp
qed

text \<open>
  C18. In every state the debouncer can reach, with calls and the passing of time
  interleaved in any way, at most one timer is pending and it is the one the closure's
  \<open>timeout\<close> holds, so the \<open>clearTimeout(timeout)\<close> of the next call cancels it.
\<close>

theorem debounce_one_timer:
  assumes "deb_reachable w d"
  shows "length (timers d) \<le> 1 \<and> (\<forall>x \<in> set (timers d). timeout d = Some (fst x))"
proof -
  from assms have "deb_inv d"
  proof (induction rule: deb_reachable.induct)
    case init
    then show ?case by simp
  next
    case (call d t a)
    then show ?case using deb_call_step [of d t w a] by simp
  next
    case (tick d t)
    then show ?case using advance_step [of d t w] by simp
  qed
  then show ?thesis by (auto simp: deb_inv_def list_all_iff)
qed

theorem debounce_one_timer_witness:
  "deb_reachable 200 (deb_call 200 50 ''y'' (deb_call 200 0 ''x'' deb_init))
   \<and> length (timers (deb_call 200 50 ''y'' (deb_call 200 0 ''x'' deb_init))) \<le> 1
   \<and> list_all (\<lambda>x. timeout (deb_call 200 50 ''y'' (deb_call 200 0 ''x'' deb_init)) = Some (fst x))
        (timers (deb_call 200 50 ''y'' (deb_call 200 0 ''x'' deb_init)))"
proof -
  have r0: "deb_reachable 200 (deb_call 200 0 ''x'' deb_init)"
    by (rule deb_reachable.call [OF deb_reachable.init]) simp
  have "clock (deb_call 200 0 ''x'' deb_init) = 0"
    using deb_call_step [of deb_init 0 200 "''x''"] by simp
  then have r: "deb_reachable 200 (deb_call 200 50 ''y'' (deb_call 200 0 ''x'' deb_init))"
    by (intro deb_reachable.call [OF r0]) simp
  show ?thesis using r debounce_one_timer [OF r] by (simp add: list_all_iff)
qed

text \<open>
  C19. The last call of a burst is never lost: once \<open>wait\<close> ms have passed after
  it, the latest \<open>func\<close> call is that one, with its arguments, at that moment.
\<close>

theorem debounce_last_call_runs:
  assumes "sorted (map fst (cs @ [(t, a)]))" and "list_all (\<lambda>(t', _). t' \<le> T) cs" and "t + w \<le> T"
  shows "last (invoked (advance T (deb_run w deb_init (cs @ [(t, a)])))) = (t + w, a)"
proof -
  have "list_all (\<lambda>(t', _). t' \<le> T) (cs @ [(t, a)])" using assms(2,3) by simp
  with deb_run_pending [OF deb_inv_init assms(1), of T w]
  have "invoked (advance T (deb_run w deb_init (cs @ [(t, a)]))) = runs w (cs @ [(t, a)]) T"
    by (simp add: pend_runs_None list_all_iff)
  with runs_snoc_last [OF assms(3), of cs] show ?thesis by simp
qed

theorem debounce_last_call_runs_witness:
  "sorted (map fst ([(0::nat, ''a''), (50, ''b'')] @ [(120, ''c'')]))
   \<and> list_all (\<lambda>(t', _). t' \<le> 400) [(0::nat, ''a''), (50, ''b'')] \<and> (120::nat) + 200 \<le> 400
   \<and> last (invoked (advance 400 (deb_run 200 deb_init ([(0, ''a''), (50, ''b'')] @ [(120, ''c'')])))) = (320, ''c'')"
proof -
  have h: "sorted (map fst ([(0::nat, ''a''), (50, ''b'')] @ [(120, ''c'')]))"
    "list_all (\<lambda>(t', _). t' \<le> 400) [(0::nat, ''a''), (50, ''b'')]" "(120::nat) + 200 \<le> 400"
    by simp_all
  show ?thesis using h debounce_last_call_runs [OF h] by simp
qed

end
