(* ===== verification/PageSetup.thy ===== *)
theory PageSetup
  imports Debounce Complex_Main
begin

text \<open>
  The top level of \<open>src/pwa/app.js\<close> outside the DOM listeners: the Window Controls
  Overlay detection (lines 18--49), whose \<open>geometrychange\<close> listener is
  \<open>debounce(handler, 200)\<close>, and the service worker registration on \<open>load\<close>
  (lines 55--66). Their only effects are console lines, modelled as the datatype
  \<open>console_line\<close>; the toast of the initial overlay check is \<open>Page.wco_initial\<close>.
  The geometry handler reads the overlay's visibility when it runs, 200 ms after the last
  event, not when the event fired; it is an input \<open>vis\<close> giving the visibility at each
  time.
\<close>

datatype console_line =
    WcoAvailable | WcoUnavailable | WcoActive
  | WcoVisibility bool | TitleBarWidth real | TitleBarHeight real | ReducedSpace
  | SwRegistered string | SwRegisterFailed

text \<open>The \<open>DOMRect\<close> of \<open>getTitlebarAreaRect()\<close>: its width and height are doubles.\<close>

record titlebar_rect =
  tb_width :: real
  tb_height :: real

definition GEOMETRY_WAIT :: nat where
  "GEOMETRY_WAIT = 200"

text \<open>The debounced handler (lines 23--40), run with the overlay's visibility at that time.\<close>

definition geometry_handler :: "bool \<Rightarrow> titlebar_rect \<Rightarrow> console_line list" where
  "geometry_handler visible r =
     [WcoVisibility visible, TitleBarWidth (tb_width r), TitleBarHeight (tb_height r)]
     @ (if tb_width r < 600 then [ReducedSpace] else [])"

text \<open>The overlay detection at load (lines 19--49): the log and whether the listener is attached.\<close>

definition wco_setup :: "bool \<Rightarrow> bool \<Rightarrow> console_line list \<times> bool" where
  "wco_setup available visible =
     (if available then (WcoAvailable # (if visible then [WcoActive] else []), True)
      else ([WcoUnavailable], False))"

text \<open>A \<open>geometrychange\<close> event at time \<open>t\<close> with the title bar rectangle \<open>r\<close>.\<close>

definition geometry_change :: "nat \<Rightarrow> titlebar_rect \<Rightarrow> titlebar_rect debouncer \<Rightarrow> titlebar_rect debouncer" where
  "geometry_change t r d = deb_call GEOMETRY_WAIT t r d"

definition geometry_log :: "(nat \<Rightarrow> bool) \<Rightarrow> titlebar_rect debouncer \<Rightarrow> console_line list" where
  "geometry_log vis d = concat (map (\<lambda>(t, r). geometry_handler (vis t) r) (invoked d))"

text \<open>The events of a session up to time \<open>T\<close>, fed to the debounced listener.\<close>

definition geometry_session :: "(nat \<times> titlebar_rect) list \<Rightarrow> nat \<Rightarrow> titlebar_rect debouncer" where
  "geometry_session es T = advance T (fold (\<lambda>(t, r). geometry_change t r) es deb_init)"

datatype reg_outcome = RegOk string | RegError

text \<open>
  The \<open>load\<close> listener (lines 56--66): with \<open>serviceWorker\<close> in \<open>navigator\<close> it
  registers \<open>/service-worker.js\<close> and logs the scope or the error.
\<close>

definition register_on_load :: "bool \<Rightarrow> reg_outcome \<Rightarrow> url option \<times> console_line list" where
  "register_on_load supported outcome =
     (if supported
      then (Some ''/service-worker.js'',
            [case outcome of RegOk scope \<Rightarrow> SwRegistered scope | RegError \<Rightarrow> SwRegisterFailed])
      else (None, []))"

subsection \<open>The debounced geometry listener\<close>

text \<open>
  C36. A burst of \<open>geometrychange\<close> events, each less than 200 ms after the one before,
  produces one run of the handler: 200 ms after the last event, with the last event's
  rectangle and the visibility at that later moment.
\<close>

theorem geometry_burst_logs_once:
  assumes "burst GEOMETRY_WAIT es" and "es \<noteq> []" and "sorted (map fst es)"
    and "fst (last es) + GEOMETRY_WAIT \<le> T"
  shows "geometry_log vis (geometry_session es T)
       = geometry_handler (vis (fst (last es) + GEOMETRY_WAIT)) (snd (last es))"
proof -
  have fold: "fold (\<lambda>(t, r). geometry_change t r) xs d = deb_run GEOMETRY_WAIT d xs" for xs d
    by (induction xs arbitrary: d) (auto simp: geometry_change_def)
  have "sorted (map fst (butlast es @ [last es]))"
    using assms(2,3) by (simp add: append_butlast_last_id)
  then have "\<forall>x \<in> set (butlast es @ [last es]). fst x \<le> fst (last es)"
    by (auto simp: sorted_append)
  then have "list_all (\<lambda>(t, _). t \<le> T) es"
    using assms(4) append_butlast_last_id [OF assms(2)] by (fastforce simp: list_all_iff)
  then show ?thesis
    using deb_run_pending [OF deb_inv_init assms(3), of T GEOMETRY_WAIT] runs_burst [OF assms(1,2,4)]
    by (simp add: geometry_log_def geometry_session_def fold pend_runs_None list_all_iff)
qed

theorem geometry_burst_logs_once_witness:
  "burst GEOMETRY_WAIT [(0::nat, \<lparr>tb_width = 900, tb_height = 40\<rparr>), (150, \<lparr>tb_width = 700, tb_height = 40\<rparr>),
                        (300, \<lparr>tb_width = 550, tb_height = 33\<rparr>)]
   \<and> geometry_log (\<lambda>t. 450 \<le> t) (geometry_session [(0, \<lparr>tb_width = 900, tb_height = 40\<rparr>),
        (150, \<lparr>tb_width = 700, tb_height = 40\<rparr>), (300, \<lparr>tb_width = 550, tb_height = 33\<rparr>)] 1000)
     = [WcoVisibility True, TitleBarWidth 550, TitleBarHeight 33, ReducedSpace]"
proof -
  have b: "burst GEOMETRY_WAIT [(0::nat, \<lparr>tb_width = 900, tb_height = 40\<rparr>), (150, \<lparr>tb_width = 700, tb_height = 40\<rparr>),
                        (300, \<lparr>tb_width = 550, tb_height = 33\<rparr>)]"
    by (simp add: GEOMETRY_WAIT_def)
  show ?thesis
    using geometry_burst_logs_once [OF b, of 1000 "\<lambda>t. 450 \<le> t"] b
    by (simp add: GEOMETRY_WAIT_def geometry_handler_def)
qed

end
