(* ===== verification/Spec2Isabelle.thy ===== *)
theory Spec2Isabelle
  imports SWLifecycle PageInvariants PageSetup
begin

text \<open>
  \<^bold>\<open>A verification library for the GameHub PWA (Maya653/PWA-Gestion-de-Juegos).\<close>

  The repository has two scripts that share no data and meet only through the browser:
  \<^item> \<open>src/pwa/service-worker.js\<close>, the offline cache proxy: it precaches a fixed list
    of assets on \<open>install\<close>, deletes caches of other versions on \<open>activate\<close>,
    answers \<open>fetch\<close> events cache-first with a network fallback and an offline page,
    stores fresh 200/basic network responses, and handles \<open>sync\<close>, \<open>push\<close>,
    \<open>notificationclick\<close> and two control \<open>message\<close>s (\<open>skipWaiting\<close>,
    \<open>clearCache\<close>);
  \<^item> \<open>src/pwa/app.js\<close>, the page controller: a \<open>debounce\<close> helper, service-worker
    registration, navigation between pages, a cart counter, toast notifications,
    filter and tab groups, library install buttons and the install prompt.
  They interact in one way: the worker serves the page's own files (\<open>/\<close>,
  \<open>/index.html\<close>, \<open>/app.js\<close>, ...) from its cache; the last section of this theory
  states what that gives offline (C33, C34).

  \<^bold>\<open>Theories.\<close>
  \<^item> \<open>Prelude\<close>: type names (\<open>url\<close>, \<open>cache_name\<close>), the fact collections
    \<open>storage_simps\<close> and \<open>handler_simps\<close>, association-list lemmas
    (\<open>alist_remove\<close>, \<open>alist_put\<close>, \<open>alist_map_at\<close>) and list lemmas
    (\<open>map_at\<close>, \<open>count_list_update\<close>) shared by the components.
  \<^item> \<open>CacheStorage\<close>: the browser's Cache Storage API as the worker calls it. It is
    not code of the repository but the interface the worker is written against:
    \<open>storage_open\<close>, \<open>storage_keys\<close>, \<open>storage_delete\<close>, \<open>storage_match\<close>
    (first cache in creation order), \<open>bucket_put\<close> (GET only), \<open>bucket_addAll\<close>
    (atomic batch, ok statuses only), and the abstract view \<open>storage_view\<close> (what
    \<open>caches.match\<close> answers per URL).
  \<^item> \<open>ServiceWorker\<close>: one definition per listener of \<open>service-worker.js\<close>:
    \<open>on_install\<close> (lines 13--29), \<open>on_activate\<close> (32--50), \<open>on_fetch\<close> (53--91),
    \<open>on_sync\<close> and \<open>syncGames\<close> (94--111), \<open>on_push\<close> (114--140),
    \<open>on_notificationclick\<close> (143--153), \<open>on_message\<close> (156--174), over the record
    \<open>sw_state\<close> whose field \<open>caches\<close> is the script's global \<open>caches\<close>. The
    fetch handler's cache write is split as the code splits it: \<open>open_current\<close> is
    \<open>caches.open(CACHE_NAME)\<close> (line 76), run when the network answers, and the
    \<open>cache.put\<close> on the Cache object it returned (line 78) is queued in \<open>pending\<close>
    with that object's identity and runs later (\<open>put_done\<close>, \<open>put_task\<close>). Cache
    objects are identified by \<open>cache_gen\<close>, which counts the creations of
    \<open>CACHE_NAME\<close>; \<open>cache_live\<close> says whether an object is still the stored one,
    and a put on a deleted object changes no stored cache. The lemmas give the
    behaviour of each handler on every branch, errors included (C1, C3, C4, C6--C8,
    C11--C13, C16).
  \<^item> \<open>SWLifecycle\<close>: the worker as an event system: \<open>sw_handle\<close> dispatches each
    browser event to its handler (lifecycle phases as guards) and completes a queued
    write at any moment; \<open>sw_reachable\<close> is the closure from a parsed worker over any
    well-formed storage. The invariant \<open>sw_inv\<close> (one bucket per name, ok statuses
    in the current bucket, queued writes 200/basic and aimed at objects already
    opened, only the current bucket once active, at most one notification, the GameHub
    one) is preserved by every event, one lemma per conjunct (C5, C9, C15). The
    abstract cache \<open>sw_abs\<close> is the map from URLs to responses with the queued writes
    marked live or dead; \<open>cache_spec\<close> is its contract and the worker refines it
    (C10). C2 and C14 are the interleavings of the deferred write: a completed live
    write is found by \<open>caches.match\<close>, and a write queued before \<open>clearCache\<close>
    is lost.
  \<^item> \<open>Debounce\<close>: \<open>debounce\<close> (\<open>app.js\<close> 6--16) as a record holding the
    closure's \<open>timeout\<close> and the browser's timer queue; \<open>executedFunction\<close> and
    \<open>later\<close> are state updates, \<open>advance\<close> the event loop up to a time (terminating
    by the queue length). \<open>runs\<close> is the reference specification of which calls reach
    \<open>func\<close>; C17--C19 show the implementation equal to it, with one timer at a time,
    and the last call of a burst never lost.
  \<^item> \<open>Page\<close>: the part of the DOM \<open>app.js\<close> reads and writes, as the record
    \<open>page\<close>, and one definition per listener (\<open>nav_click\<close>, \<open>cart_click\<close>,
    \<open>showNotification\<close>, \<open>filter_click\<close>, \<open>tab_click\<close>, \<open>library_click\<close>,
    \<open>on_beforeinstallprompt\<close>, \<open>install_click\<close>/\<open>resume_install\<close> split at
    the \<open>await\<close>, ...); timers are queued as \<open>ptask\<close> values run by
    \<open>run_task\<close>. A listener that throws returns the DOM as it stood with the error.
    \<open>nav_links\<close> holds every element with a \<open>data-page\<close> attribute, the
    navigation links marked \<open>in_nav\<close>, because line 85 selects across the whole
    document. C20--C25 give the handlers' behaviour.
  \<^item> \<open>PageEvents\<close>: \<open>page_step\<close> dispatches user actions, window events, timer
    callbacks (earliest due first) and the passing of time; \<open>page_reachable\<close> starts
    from \<open>page_load\<close>. Without user input the timers run to quiescence: \<open>drain\<close>
    (a \<open>function\<close> terminating by a weight on the timer queue) and \<open>settle\<close> (the
    same loop as a \<open>while_option\<close>), shown to terminate and agree (C35). C31 and C32
    are sequences of events that expose the install-prompt defects.
  \<^item> \<open>PageInvariants\<close>: four invariants of the reachable pages (cart counter,
    exclusive groups, one install timer per disabled button, toast lifetimes), each
    preserved by every event (C26--C29), and the liveness of the page: it settles with
    every toast removed and every installation finished (C30).
  \<^item> \<open>PageSetup\<close>: the script's top level outside the DOM listeners: the overlay
    detection \<open>wco_setup\<close>, the \<open>geometrychange\<close> listener as
    \<open>debounce(geometry_handler, 200)\<close> over the \<open>Debounce\<close> model, which logs once
    per burst of events (C36), and the service worker registration
    \<open>register_on_load\<close>. The title bar rectangle has \<open>real\<close> width and height, as
    the doubles of a \<open>DOMRect\<close>.

  \<^bold>\<open>Modelling choices.\<close> The network is an input: each fetch event carries the
  network's answer (\<open>None\<close> for a rejected \<open>fetch\<close>), and each install a function
  from requests to answers; every request the worker sends is logged in \<open>net_log\<close>.
  Handlers are atomic except the fetch handler's \<open>cache.put\<close>, which the code
  neither awaits nor passes to \<open>waitUntil\<close>, and the install button's click handler,
  which suspends at \<open>await userChoice\<close>. \<open>caches.open\<close> in the fetch handler is
  taken to take effect when the network answers, before any later event. Time is a
  natural number of milliseconds; no bound or fuel is needed: every loop is a
  structural recursion or a \<open>function\<close> with a termination measure, and the one
  \<open>while_option\<close> is shown to return. Console output is modelled (as
  \<open>console_line\<close>) only where it is a listener's whole effect, in \<open>PageSetup\<close>;
  elsewhere it is dropped. A \<open>char\<close> is a code unit below 256: string literals with
  non-ASCII letters are transliterated (\<open>notificacion\<close>, \<open>Anadir al Carrito\<close>),
  and \<open>js_trim\<close> strips the white space such strings can hold, no-break space included.
  The HTML page is not in the repository: the model takes the click target
  \<open>e.target\<close> of a cart button to be the button, as it is for a button whose content
  is text, and takes \<open>data-page\<close> values free of quotes, backslashes and line breaks,
  for which \<open>[data-page="..."]\<close> selects exactly the elements with that value.

  \<^bold>\<open>Not modelled.\<close> The stylesheet injected at lines 207--232 (static text of the
  two keyframe animations, whose names are the datatype \<open>anim\<close>), the two console lines
  at the end of \<open>app.js\<close> and of \<open>service-worker.js\<close>, and the browser itself beyond
  the Cache Storage calls, the event dispatch, the timer queue and the overlay's visibility.
\<close>

subsection \<open>The worker serving the page offline\<close>

lemma installed_caches:
  assumes "sw_run (sw_init []) [EvInstall net, EvActivate] = Some s"
  shows "caches s = [(CACHE_NAME, cache_apply (bucket_addAll net urlsToCache) [])] \<and> phase s = Activated"
  using assms
  by (auto simp: sw_handle.simps on_install_def Let_def open_current_def on_activate_def delete_each_filter storage_open_def
      storage_update_def alist_map_at_def storage_keys_def split: if_splits)

lemma installed_lookup:
  assumes "sw_run (sw_init []) [EvInstall net, EvActivate] = Some s" and "batch_ok net urlsToCache"
  shows "storage_match (caches s) (url_request u) = (if u \<in> set urlsToCache then net (url_request u) else None)"
proof -
  from assms(2) obtain b' where b': "bucket_addAll net urlsToCache [] = Inr b'"
    using bucket_addAll_Inl_iff [of net urlsToCache] by (metis sum.exhaust)
  then show ?thesis
    using installed_caches [OF assms(1)] bucket_addAll_lookup [OF b', of u]
    by (auto simp: bucket_match_def cache_apply_def url_request_def split: option.splits)
qed

text \<open>
  C33. Offline availability of the page: once the worker has installed with every asset
  fetched successfully and has activated, a request for any precached asset, the page
  controller \<open>/app.js\<close> included, is answered from the cache with the installed
  response even when the network fails, and without a network request.
\<close>

theorem offline_after_install:
  assumes "batch_ok net urlsToCache" and "u \<in> set urlsToCache"
    and "sw_run (sw_init []) [EvInstall net, EvActivate] = Some s"
  shows "\<exists>s'. sw_handle s (EvFetch (url_request u) None) = Some s' \<and> net_log s' = net_log s
           \<and> served s' = served s @ [(url_request u, net (url_request u))] \<and> net (url_request u) \<noteq> None"
proof -
  have m: "storage_match (caches s) (url_request u) = net (url_request u)"
    using installed_lookup [OF assms(3,1)] assms(2) by simp
  have "net (url_request u) \<noteq> None"
    using assms(1,2) by (auto simp: batch_ok_def list_all_iff split: option.splits)
  then show ?thesis
    using m installed_caches [OF assms(3)] by (auto simp: sw_handle.simps on_fetch_def)
qed

theorem offline_after_install_witness:
  "let s = the (sw_run (sw_init []) [EvInstall (\<lambda>_. Some (basic_200 ''asset'')), EvActivate])
   in \<exists>s'. sw_handle s (EvFetch (url_request ''/app.js'') None) = Some s' \<and> net_log s' = net_log s
        \<and> served s' = served s @ [(url_request ''/app.js'', Some (basic_200 ''asset''))]"
proof -
  let ?net = "\<lambda>_ :: request. Some (basic_200 ''asset'')"
  let ?s = "the (sw_run (sw_init []) [EvInstall ?net, EvActivate])"
  have ok: "batch_ok ?net urlsToCache" by (simp add: batch_ok_def urlsToCache_def basic_200_def ok_status_def)
  have u: "''/app.js'' \<in> set urlsToCache" by (simp add: urlsToCache_def)
  have run: "sw_run (sw_init []) [EvInstall ?net, EvActivate] = Some ?s" by (simp add: sw_eval_simps)
  show ?thesis using offline_after_install [OF ok u run] by (simp only: Let_def) blast
qed

text \<open>
  C34. The badge and action icon \<open>/icon-96.png\<close> that every push notification names is
  not in \<open>urlsToCache\<close>: offline, after the same successful install, the worker answers
  a request for it with the cached \<open>/index.html\<close> document.
\<close>

theorem badge_offline_gets_index:
  assumes "batch_ok net urlsToCache" and "sw_run (sw_init []) [EvInstall net, EvActivate] = Some s"
  shows "n_badge (push_notification d) = ''/icon-96.png''
     \<and> (\<exists>s'. sw_handle s (EvFetch (url_request ''/icon-96.png'') None) = Some s'
           \<and> served s' = served s @ [(url_request ''/icon-96.png'', net (url_request ''/index.html''))])"
proof -
  from assms(1) obtain b' where b': "bucket_addAll net urlsToCache [] = Inr b'"
    using bucket_addAll_Inl_iff [of net urlsToCache] by (metis sum.exhaust)
  have c: "caches s = [(CACHE_NAME, b')]" "phase s = Activated"
    using installed_caches [OF assms(2)] b' by (simp_all add: cache_apply_def)
  have "bucket_match b' (url_request ''/icon-96.png'') = None"
       "bucket_match b' (url_request ''/index.html'') = net (url_request ''/index.html'')"
    using bucket_addAll_lookup [OF b'] by (simp_all add: bucket_match_def url_request_def urlsToCache_def)
  then show ?thesis
    using c by (simp add: sw_handle.simps on_fetch_def push_notification_def storage_bucket_def split: option.splits)
qed

theorem badge_offline_gets_index_witness:
  "let s = the (sw_run (sw_init []) [EvInstall (\<lambda>_. Some (basic_200 ''asset'')), EvActivate])
   in \<exists>s'. sw_handle s (EvFetch (url_request ''/icon-96.png'') None) = Some s'
        \<and> served s' = served s @ [(url_request ''/icon-96.png'', Some (basic_200 ''asset''))]"
proof -
  let ?net = "\<lambda>_ :: request. Some (basic_200 ''asset'')"
  let ?s = "the (sw_run (sw_init []) [EvInstall ?net, EvActivate])"
  have ok: "batch_ok ?net urlsToCache" by (simp add: batch_ok_def urlsToCache_def basic_200_def ok_status_def)
  have run: "sw_run (sw_init []) [EvInstall ?net, EvActivate] = Some ?s" by (simp add: sw_eval_simps)
  show ?thesis using badge_offline_gets_index [OF ok run, of None] by (simp only: Let_def)
qed

end
